theory Spec2Isabelle
  imports Complex_Main "HOL-Library.Word"
begin

section \<open>The echoprint fingerprint codec and matcher\<close>

text \<open>
  A shallow embedding of package \<open>echoprint\<close>: the codec (\<open>decode\<close>,
  \<open>NewFingerprint\<close>), the window clamper (\<open>NewClamped\<close>), the scorer
  (\<open>calculateConfidence\<close>, \<open>getCodeTimeMap\<close>), the match engine (\<open>Match\<close>,
  \<open>determineBestMatch\<close>, \<open>clampMatchConfidence\<close>) and the batch entry point
  (\<open>MatchAll\<close>).
\<close>

subsection \<open>Results, errors and panics\<close>

text \<open>
  A Go function here ends in one of three ways: it returns a value, it returns a
  non-nil \<open>error\<close>, or it panics (index out of range, slice bounds out of range,
  integer division by zero). The last two are the two constructors of \<open>fault\<close>.
\<close>

type_synonym uint32 = "32 word"
type_synonym uint16 = "16 word"

datatype error = ErrSyntax | ErrRange | ErrOther string

datatype panic = IndexOutOfRange | SliceBoundsOutOfRange | IntegerDivideByZero

datatype fault = Failed error | Panicked panic

subsection \<open>strconv.ParseUint at base 16, bit size 32\<close>

text \<open>
  The digit loop of \<open>strconv.ParseUint\<close>: a decimal digit counts 0 to 9, a letter
  (either case) counts 10 to 35, every other byte is a syntax error, and so is a digit
  not below the base. A value above \<open>2^32 - 1\<close> is a range error. The empty string is a
  syntax error. With an explicit base no prefix and no underscore is accepted.
\<close>

definition digitVal :: "char \<Rightarrow> nat option" where
  "digitVal c =
     (let n = (of_char c :: nat) in
      if 48 \<le> n \<and> n \<le> 57 then Some (n - 48)
      else if 97 \<le> n \<and> n \<le> 122 then Some (n - 97 + 10)
      else if 65 \<le> n \<and> n \<le> 90 then Some (n - 65 + 10)
      else None)"

fun parseDigits :: "nat \<Rightarrow> string \<Rightarrow> error + nat" where
  "parseDigits n [] = Inr n"
| "parseDigits n (c # cs) =
     (case digitVal c of
        None \<Rightarrow> Inl ErrSyntax
      | Some d \<Rightarrow>
          if 16 \<le> d then Inl ErrSyntax
          else if 2 ^ 32 - 1 < n * 16 + d then Inl ErrRange
          else parseDigits (n * 16 + d) cs)"

definition ParseUint :: "string \<Rightarrow> error + nat" where
  "ParseUint s = (if s = [] then Inl ErrSyntax else parseDigits 0 s)"

subsection \<open>decode\<close>

text \<open>The slice expression \<open>s[lo:hi]\<close> of a string: it panics outside \<open>lo \<le> hi \<le> len(s)\<close>.\<close>

definition substr :: "string \<Rightarrow> nat \<Rightarrow> nat \<Rightarrow> fault + string" where
  "substr s lo hi =
     (if lo \<le> hi \<and> hi \<le> length s then Inr (take (hi - lo) (drop lo s))
      else Inl (Panicked SliceBoundsOutOfRange))"

text \<open>
  One step shared by both loops of \<open>decode\<close>:
  \<open>conv, err = strconv.ParseUint(fp[offset:offset+5], 16, 32)\<close> with \<open>offset = i * 5\<close>,
  and the early return on \<open>err != nil\<close>.
\<close>

definition parseGroup :: "string \<Rightarrow> nat \<Rightarrow> fault + uint32" where
  "parseGroup fp i =
     (case substr fp (i * 5) (i * 5 + 5) of
        Inl f \<Rightarrow> Inl f
      | Inr g \<Rightarrow>
          (case ParseUint g of
             Inl e \<Rightarrow> Inl (Failed e)
           | Inr v \<Rightarrow> Inr (of_nat v)))"

text \<open>An indexed store \<open>xs[i] = v\<close> into a slice: it panics when \<open>i \<ge> len(xs)\<close>.\<close>

definition store :: "'a list \<Rightarrow> nat \<Rightarrow> 'a \<Rightarrow> fault + 'a list" where
  "store xs i v = (if i < length xs then Inr (xs[i := v]) else Inl (Panicked IndexOutOfRange))"

text \<open>First loop: \<open>for ; i < length; i++ { ... times[i] = uint32(conv) }\<close>.\<close>

function timesLoop :: "string \<Rightarrow> nat \<Rightarrow> nat \<Rightarrow> uint32 list \<Rightarrow> fault + uint32 list" where
  "timesLoop fp len i tms =
     (if i < len then
        (case parseGroup fp i of
           Inl f \<Rightarrow> Inl f
         | Inr v \<Rightarrow>
             (case store tms i v of
                Inl f \<Rightarrow> Inl f
              | Inr tms' \<Rightarrow> timesLoop fp len (Suc i) tms'))
      else Inr tms)"
  by pat_completeness auto
termination
  by (relation "measure (\<lambda>(fp, len, i, tms). len - i)") auto

text \<open>
  Second loop: \<open>for ; i < tupleCount; i++ { ... codes[i-length] = uint32(conv) }\<close>,
  entered with \<open>i = length\<close>.
\<close>

function codesLoop :: "string \<Rightarrow> nat \<Rightarrow> nat \<Rightarrow> nat \<Rightarrow> uint32 list \<Rightarrow> fault + uint32 list" where
  "codesLoop fp len tupleCount i codes =
     (if i < tupleCount then
        (case parseGroup fp i of
           Inl f \<Rightarrow> Inl f
         | Inr v \<Rightarrow>
             (case store codes (i - len) v of
                Inl f \<Rightarrow> Inl f
              | Inr codes' \<Rightarrow> codesLoop fp len tupleCount (Suc i) codes'))
      else Inr codes)"
  by pat_completeness auto
termination
  by (relation "measure (\<lambda>(fp, len, tupleCount, i, codes). tupleCount - i)") auto

declare timesLoop.simps [simp del] codesLoop.simps [simp del]

text \<open>\<open>decode\<close> returns \<open>(codes, times)\<close>, in that order.\<close>

definition decode :: "string \<Rightarrow> fault + (uint32 list \<times> uint32 list)" where
  "decode fp =
     (let tupleCount = length fp div 5;
          len = tupleCount div 2;
          codes = replicate len (0 :: uint32);
          tms = replicate len (0 :: uint32)
      in case timesLoop fp len 0 tms of
           Inl f \<Rightarrow> Inl f
         | Inr tms' \<Rightarrow>
             (case codesLoop fp len tupleCount len codes of
                Inl f \<Rightarrow> Inl f
              | Inr codes' \<Rightarrow> Inr (codes', tms')))"

subsection \<open>Fingerprints\<close>

record metadata =
  TrackID :: uint32
  UPC :: string
  ISRC :: string
  Version :: real
  Filename :: string
  Bitrate :: real
  Duration :: real

record CodegenFp =
  cgMeta :: metadata
  Code :: string

record Fingerprint =
  Codes :: "uint32 list"
  Times :: "uint32 list"
  Meta :: metadata
  clamped :: bool

text \<open>
  \<open>inflate\<close> (URL-safe base64, then zlib) is a parameter of the model: it either
  returns the inflated string or an error.
\<close>

definition NewFingerprint :: "(string \<Rightarrow> error + string) \<Rightarrow> CodegenFp \<Rightarrow> fault + Fingerprint" where
  "NewFingerprint inflate codegenFp =
     (case inflate (Code codegenFp) of
        Inl e \<Rightarrow> Inl (Failed e)
      | Inr inflated \<Rightarrow>
          (case decode inflated of
             Inl f \<Rightarrow> Inl f
           | Inr (codes, tms) \<Rightarrow>
               Inr \<lparr>Codes = codes, Times = tms, Meta = cgMeta codegenFp, clamped = False\<rparr>))"

subsection \<open>NewClamped\<close>

definition fpSixtySecOffset :: nat where
  "fpSixtySecOffset = 2586"

text \<open>An indexed read \<open>xs[i]\<close>: it panics when \<open>i \<ge> len(xs)\<close>.\<close>

definition index :: "'a list \<Rightarrow> nat \<Rightarrow> fault + 'a" where
  "index xs i = (if i < length xs then Inr (xs ! i) else Inl (Panicked IndexOutOfRange))"

text \<open>
  The slice expression \<open>xs[:i]\<close>. Go allows \<open>i\<close> up to the capacity of \<open>xs\<close>; the
  slices of a fingerprint are modelled with capacity equal to length, as \<open>decode\<close>
  makes them.
\<close>

definition sliceTo :: "'a list \<Rightarrow> nat \<Rightarrow> fault + 'a list" where
  "sliceTo xs i = (if i \<le> length xs then Inr (take i xs) else Inl (Panicked SliceBoundsOutOfRange))"

text \<open>
  \<open>for i, time := range fp.Times { if time > clampDuration { ...; break } }\<close>:
  the index at which the loop breaks, if it does.
\<close>

fun clampScan :: "uint32 \<Rightarrow> uint32 list \<Rightarrow> nat \<Rightarrow> nat option" where
  "clampScan clampDuration [] i = None"
| "clampScan clampDuration (t # ts) i =
     (if clampDuration < t then Some i else clampScan clampDuration ts (Suc i))"

text \<open>
  \<open>clampDuration := fpSixtySecOffset*3 + fp.Times[0]\<close> is a \<open>uint32\<close> sum: it wraps
  around at \<open>2^32\<close>.
\<close>

definition NewClamped :: "Fingerprint \<Rightarrow> fault + Fingerprint" where
  "NewClamped fp =
     (case index (Times fp) 0 of
        Inl f \<Rightarrow> Inl f
      | Inr t0 \<Rightarrow>
          (let clampDuration = of_nat (fpSixtySecOffset * 3) + t0 in
           case clampScan clampDuration (Times fp) 0 of
             None \<Rightarrow> Inr \<lparr>Codes = Codes fp, Times = Times fp, Meta = Meta fp, clamped = True\<rparr>
           | Some i \<Rightarrow>
               (case sliceTo (Codes fp) i of
                  Inl f \<Rightarrow> Inl f
                | Inr cs \<Rightarrow>
                    (case sliceTo (Times fp) i of
                       Inl f \<Rightarrow> Inl f
                     | Inr ts \<Rightarrow>
                         Inr \<lparr>Codes = cs, Times = ts, Meta = Meta fp, clamped = True\<rparr>))))"

subsection \<open>Quality\<close>

definition qualityHigh :: string where "qualityHigh = ''high''"
definition qualityMedium :: string where "qualityMedium = ''medium''"
definition qualityLow :: string where "qualityLow = ''low''"

definition mediumQualityThreshold :: real where "mediumQualityThreshold = 256"
definition lowQualityThreshold :: real where "lowQualityThreshold = 128"

definition Quality :: "Fingerprint \<Rightarrow> string" where
  "Quality fp =
     (if Bitrate (Meta fp) = 0 then qualityHigh
      else if mediumQualityThreshold \<le> Bitrate (Meta fp) then qualityHigh
      else if lowQualityThreshold \<le> Bitrate (Meta fp) then qualityMedium
      else qualityLow)"

subsection \<open>float32 values\<close>

text \<open>
  A \<open>float32\<close> is a finite value, an infinity or NaN. The special values follow
  IEEE 754, as Go does: \<open>0/0\<close> is NaN, and every comparison with NaN is false. Finite
  arithmetic is taken exact (rounding to 24 bits is not modelled), and the sign of a
  zero is not kept; the divisors of this package are lengths, never negative.
\<close>

datatype float32 = Fin real | PInf | NInf | NaN

fun fsub :: "float32 \<Rightarrow> float32 \<Rightarrow> float32" where
  "fsub (Fin a) (Fin b) = Fin (a - b)"
| "fsub NaN y = NaN"
| "fsub x NaN = NaN"
| "fsub PInf PInf = NaN"
| "fsub NInf NInf = NaN"
| "fsub PInf y = PInf"
| "fsub NInf y = NInf"
| "fsub (Fin a) PInf = NInf"
| "fsub (Fin a) NInf = PInf"

fun fmul :: "float32 \<Rightarrow> float32 \<Rightarrow> float32" where
  "fmul (Fin a) (Fin b) = Fin (a * b)"
| "fmul NaN y = NaN"
| "fmul x NaN = NaN"
| "fmul PInf (Fin b) = (if b = 0 then NaN else if 0 < b then PInf else NInf)"
| "fmul NInf (Fin b) = (if b = 0 then NaN else if 0 < b then NInf else PInf)"
| "fmul (Fin a) PInf = (if a = 0 then NaN else if 0 < a then PInf else NInf)"
| "fmul (Fin a) NInf = (if a = 0 then NaN else if 0 < a then NInf else PInf)"
| "fmul PInf PInf = PInf"
| "fmul PInf NInf = NInf"
| "fmul NInf PInf = NInf"
| "fmul NInf NInf = PInf"

fun fdiv :: "float32 \<Rightarrow> float32 \<Rightarrow> float32" where
  "fdiv (Fin a) (Fin b) =
     (if b \<noteq> 0 then Fin (a / b) else if a = 0 then NaN else if 0 < a then PInf else NInf)"
| "fdiv NaN y = NaN"
| "fdiv x NaN = NaN"
| "fdiv PInf (Fin b) = (if 0 \<le> b then PInf else NInf)"
| "fdiv NInf (Fin b) = (if 0 \<le> b then NInf else PInf)"
| "fdiv (Fin a) y = Fin 0"
| "fdiv x y = NaN"

fun fge :: "float32 \<Rightarrow> float32 \<Rightarrow> bool" where
  "fge (Fin a) (Fin b) = (b \<le> a)"
| "fge NaN y = False"
| "fge x NaN = False"
| "fge PInf y = True"
| "fge x NInf = True"
| "fge x y = False"

fun fgt :: "float32 \<Rightarrow> float32 \<Rightarrow> bool" where
  "fgt (Fin a) (Fin b) = (b < a)"
| "fgt NaN y = False"
| "fgt x NaN = False"
| "fgt PInf PInf = False"
| "fgt NInf NInf = False"
| "fgt PInf y = True"
| "fgt x NInf = True"
| "fgt x y = False"

text \<open>The conversion \<open>float32(n)\<close> of an \<open>int\<close>.\<close>

definition float32OfInt :: "int \<Rightarrow> float32" where
  "float32OfInt n = Fin (real_of_int n)"

subsection \<open>The scorer\<close>

text \<open>\<open>t / slop * slop\<close> on \<open>uint32\<close>: the division panics when \<open>slop\<close> is 0.\<close>

definition roundDown :: "uint32 \<Rightarrow> uint32 \<Rightarrow> fault + uint32" where
  "roundDown t slop =
     (if slop = 0 then Inl (Panicked IntegerDivideByZero) else Inr (t div slop * slop))"

text \<open>
  The loop of \<open>getCodeTimeMap\<close>; \<open>codeMap[code] = append(codeMap[code], time)\<close>
  appends to the empty slice when the key is new.
\<close>

function codeMapLoop ::
  "Fingerprint \<Rightarrow> nat \<Rightarrow> uint32 \<Rightarrow> nat \<Rightarrow> (uint32 \<rightharpoonup> uint32 list) \<Rightarrow> fault + (uint32 \<rightharpoonup> uint32 list)"
where
  "codeMapLoop fp limit slop i codeMap =
     (if i < limit then
        (case index (Codes fp) i of
           Inl f \<Rightarrow> Inl f
         | Inr code \<Rightarrow>
             (case index (Times fp) i of
                Inl f \<Rightarrow> Inl f
              | Inr t \<Rightarrow>
                  (case roundDown t slop of
                     Inl f \<Rightarrow> Inl f
                   | Inr time \<Rightarrow>
                       codeMapLoop fp limit slop (Suc i)
                         (codeMap(code \<mapsto> (case codeMap code of None \<Rightarrow> [] | Some ts \<Rightarrow> ts) @ [time])))))
      else Inr codeMap)"
  by pat_completeness auto
termination
  by (relation "measure (\<lambda>(fp, limit, slop, i, codeMap). limit - i)") auto

declare codeMapLoop.simps [simp del]

definition getCodeTimeMap :: "Fingerprint \<Rightarrow> nat \<Rightarrow> uint32 \<Rightarrow> fault + (uint32 \<rightharpoonup> uint32 list)" where
  "getCodeTimeMap fp limit slop =
     (let limit' = (if length (Codes fp) < limit then length (Codes fp) else limit)
      in codeMapLoop fp limit' slop 0 Map.empty)"

text \<open>
  Go's \<open>int\<close> is 32 or 64 bits wide, by platform. The conversion \<open>int(x)\<close> of a
  \<open>uint32\<close> keeps the value when \<open>int\<close> has 64 bits and reads the same 32 bits as
  two's complement when it has 32. Negation wraps.
\<close>

datatype intSize = Int32 | Int64

definition intOfUint32 :: "intSize \<Rightarrow> uint32 \<Rightarrow> int" where
  "intOfUint32 sz x = (case sz of Int32 \<Rightarrow> sint x | Int64 \<Rightarrow> uint x)"

definition negInt :: "intSize \<Rightarrow> int \<Rightarrow> int" where
  "negInt sz d = (case sz of Int32 \<Rightarrow> signed_take_bit 31 (- d) | Int64 \<Rightarrow> signed_take_bit 63 (- d))"

text \<open>
  The histogram \<open>timeDiffs\<close> is a \<open>map[int]uint16\<close>, kept here as an association list
  with one entry per key. \<open>timeDiffs[dist]++\<close> starts a missing key from 0; the count
  is a \<open>uint16\<close> and wraps.
\<close>

type_synonym histogram = "(int \<times> uint16) list"

definition increment :: "histogram \<Rightarrow> int \<Rightarrow> histogram" where
  "increment h k =
     (case map_of h k of
        None \<Rightarrow> h @ [(k, 1)]
      | Some c \<Rightarrow> map (\<lambda>(k', c'). if k' = k then (k', c' + 1) else (k', c')) h)"

text \<open>
  \<open>dist := int(fpTime - matchTime); if dist < 0 { dist = -dist }\<close>: the subtraction
  is on \<open>uint32\<close> and happens before the conversion.
\<close>

definition distOf :: "intSize \<Rightarrow> uint32 \<Rightarrow> uint32 \<Rightarrow> int" where
  "distOf sz fpTime matchTime =
     (let dist = intOfUint32 sz (fpTime - matchTime)
      in if dist < 0 then negInt sz dist else dist)"

text \<open>\<open>for _, matchTime := range matchTimes { ...; timeDiffs[dist]++ }\<close>\<close>

fun matchTimesLoop :: "intSize \<Rightarrow> uint32 \<Rightarrow> uint32 list \<Rightarrow> histogram \<Rightarrow> histogram" where
  "matchTimesLoop sz fpTime [] timeDiffs = timeDiffs"
| "matchTimesLoop sz fpTime (matchTime # rest) timeDiffs =
     matchTimesLoop sz fpTime rest (increment timeDiffs (distOf sz fpTime matchTime))"

text \<open>\<open>for i, code := range fp.Codes { fpTime := fp.Times[i] / slop * slop; ... }\<close>\<close>

fun codesRangeLoop ::
  "intSize \<Rightarrow> uint32 list \<Rightarrow> uint32 \<Rightarrow> (uint32 \<rightharpoonup> uint32 list) \<Rightarrow> uint32 list \<Rightarrow> nat \<Rightarrow> histogram
     \<Rightarrow> fault + histogram"
where
  "codesRangeLoop sz tms slop matchCodeMap [] i timeDiffs = Inr timeDiffs"
| "codesRangeLoop sz tms slop matchCodeMap (code # rest) i timeDiffs =
     (case index tms i of
        Inl f \<Rightarrow> Inl f
      | Inr t \<Rightarrow>
          (case roundDown t slop of
             Inl f \<Rightarrow> Inl f
           | Inr fpTime \<Rightarrow>
               codesRangeLoop sz tms slop matchCodeMap rest (Suc i)
                 (case matchCodeMap code of
                    None \<Rightarrow> timeDiffs
                  | Some matchTimes \<Rightarrow> matchTimesLoop sz fpTime matchTimes timeDiffs)))"

text \<open>The histogram that \<open>calculateConfidence\<close> has built when its first loop ends.\<close>

definition timeDiffsOf :: "intSize \<Rightarrow> Fingerprint \<Rightarrow> Fingerprint \<Rightarrow> uint32 \<Rightarrow> fault + histogram" where
  "timeDiffsOf sz fp matchFp slop =
     (case getCodeTimeMap matchFp (length (Codes fp)) slop of
        Inl f \<Rightarrow> Inl f
      | Inr matchCodeMap \<Rightarrow> codesRangeLoop sz (Times fp) slop matchCodeMap (Codes fp) 0 [])"

text \<open>
  The counts, sorted descending (\<open>sort.Sort(sort.Reverse(sort.IntSlice(timeDiffVals)))\<close>),
  and the sum of the first two.
\<close>

definition timeDiffVals :: "histogram \<Rightarrow> int list" where
  "timeDiffVals h = rev (sort (map (\<lambda>(k, c). uint c) h))"

definition scoreOf :: "int list \<Rightarrow> int" where
  "scoreOf vals =
     (if 0 < length vals then
        (if 1 < length vals then vals ! 0 + vals ! 1 else vals ! 0)
      else 0)"

text \<open>\<open>return float32(score) / float32(len(fp.Codes)) * 100.00\<close>\<close>

definition calculateConfidence :: "intSize \<Rightarrow> Fingerprint \<Rightarrow> Fingerprint \<Rightarrow> uint32 \<Rightarrow> fault + float32" where
  "calculateConfidence sz fp matchFp slop =
     (case timeDiffsOf sz fp matchFp slop of
        Inl f \<Rightarrow> Inl f
      | Inr timeDiffs \<Rightarrow>
          Inr (fmul (fdiv (float32OfInt (scoreOf (timeDiffVals timeDiffs)))
                          (float32OfInt (int (length (Codes fp)))))
                    (Fin 100)))"

subsection \<open>The match engine\<close>

definition histogramMatchSlop :: uint32 where "histogramMatchSlop = 2"
definition minDBScorePercent :: real where "minDBScorePercent = 0.30 * 100"
definition bestMatchDiff :: float32 where "bestMatchDiff = Fin 0.25"
definition maxConfidence :: float32 where "maxConfidence = Fin 100.00"
definition minMatchConfidenceHighQuality :: float32 where "minMatchConfidenceHighQuality = Fin (0.70 * 100)"
definition minMatchConfidenceMediumQuality :: float32 where "minMatchConfidenceMediumQuality = Fin (0.55 * 100)"
definition minMatchConfidenceLowQuality :: float32 where "minMatchConfidenceLowQuality = Fin (0.35 * 100)"
definition searchDepthHighQuality :: nat where "searchDepthHighQuality = 200"
definition searchDepthMediumQuality :: nat where "searchDepthMediumQuality = 350"
definition searchDepthLowQuality :: nat where "searchDepthLowQuality = 500"

text \<open>
  A row of the candidate store, as \<open>Match\<close> reads it: \<open>dbFp\<close> is its field \<open>fp\<close>.
  The store's \<open>query\<close> is a parameter of the model.
\<close>

record dbResult =
  dbFp :: Fingerprint
  ingestedAt :: string

type_synonym dbQuery = "Fingerprint \<Rightarrow> nat \<Rightarrow> nat \<Rightarrow> real \<Rightarrow> error + dbResult list"

text \<open>
  \<open>MatchResult\<close>; \<open>mrFp\<close> is its field \<open>fp\<close>, a pointer that may be nil. The
  \<open>Error\<close> field holds \<open>err.Error()\<close> or nil; the model keeps the
  error itself. The zero value is what a composite literal leaves in the fields it does
  not name.
\<close>

record MatchResult =
  mrFp :: "Fingerprint option"
  Best :: bool
  TrackID :: uint32
  Filename :: string
  UPC :: string
  ISRC :: string
  Confidence :: float32
  IngestedAt :: string
  Error :: "error option"

definition newMatchResult :: "dbResult \<Rightarrow> float32 \<Rightarrow> MatchResult" where
  "newMatchResult r confidence =
     \<lparr>mrFp = Some (dbFp r),
      Best = False,
      TrackID = metadata.TrackID (Meta (dbFp r)),
      Filename = metadata.Filename (Meta (dbFp r)),
      UPC = metadata.UPC (Meta (dbFp r)),
      ISRC = metadata.ISRC (Meta (dbFp r)),
      Confidence = confidence,
      IngestedAt = ingestedAt r,
      Error = None\<rparr>"

definition newMatchGroupError :: "error \<Rightarrow> MatchResult list" where
  "newMatchGroupError err =
     [\<lparr>mrFp = None, Best = False, TrackID = 0, Filename = [], UPC = [], ISRC = [],
       Confidence = Fin 0, IngestedAt = [], Error = Some err\<rparr>]"

text \<open>
  \<open>determineBestMatch\<close> sets \<open>Best\<close> through the pointer \<open>matches[0]\<close>; the model
  returns the updated slice. With an empty slice the \<open>else\<close> branch is taken and
  \<open>matches[0]\<close> panics.
\<close>

definition determineBestMatch :: "MatchResult list \<Rightarrow> fault + MatchResult list" where
  "determineBestMatch matches =
     (if length matches = 1 then Inr (matches[0 := (matches ! 0)\<lparr>Best := True\<rparr>])
      else
        (case index matches 0 of
           Inl f \<Rightarrow> Inl f
         | Inr m0 \<Rightarrow>
             (case index matches 1 of
                Inl f \<Rightarrow> Inl f
              | Inr m1 \<Rightarrow>
                  if fge (fsub (Confidence m0) (Confidence m1)) (fmul (Confidence m0) bestMatchDiff)
                  then Inr (matches[0 := m0\<lparr>Best := True\<rparr>])
                  else Inr matches)))"

definition clampMatchConfidence :: "MatchResult list \<Rightarrow> MatchResult list" where
  "clampMatchConfidence matches =
     map (\<lambda>m. if fgt (Confidence m) maxConfidence then m\<lparr>Confidence := maxConfidence\<rparr> else m) matches"

text \<open>
  \<open>sort.Sort(byConfidence(matches))\<close> orders by \<open>Less(i, j) = Confidence i > Confidence j\<close>.
  The library's sort is not stable; the model is an insertion sort that keeps ties in
  their order.
\<close>

fun insertByConfidence :: "MatchResult \<Rightarrow> MatchResult list \<Rightarrow> MatchResult list" where
  "insertByConfidence m [] = [m]"
| "insertByConfidence m (x # xs) =
     (if fgt (Confidence x) (Confidence m) then x # insertByConfidence m xs else m # x # xs)"

definition sortByConfidence :: "MatchResult list \<Rightarrow> MatchResult list" where
  "sortByConfidence matches = foldr insertByConfidence matches []"

text \<open>
  \<open>for _, r := range results { confidence := calculateConfidence(...); if confidence >=
  minMatchConfidence { matches = append(matches, newMatchResult(r, confidence)) } }\<close>
\<close>

fun resultsLoop ::
  "intSize \<Rightarrow> Fingerprint \<Rightarrow> float32 \<Rightarrow> dbResult list \<Rightarrow> MatchResult list \<Rightarrow> fault + MatchResult list"
where
  "resultsLoop sz fp minMatchConfidence [] matches = Inr matches"
| "resultsLoop sz fp minMatchConfidence (r # rest) matches =
     (case calculateConfidence sz fp (dbFp r) histogramMatchSlop of
        Inl f \<Rightarrow> Inl f
      | Inr confidence \<Rightarrow>
          resultsLoop sz fp minMatchConfidence rest
            (if fge confidence minMatchConfidence then matches @ [newMatchResult r confidence]
             else matches))"

definition Match :: "intSize \<Rightarrow> dbQuery \<Rightarrow> Fingerprint \<Rightarrow> fault + MatchResult list" where
  "Match sz query fp0 =
     (case (if \<not> clamped fp0 then NewClamped fp0 else Inr fp0) of
        Inl f \<Rightarrow> Inl f
      | Inr fp \<Rightarrow>
          (let (numRows, minMatchConfidence) =
                 (if Quality fp = qualityHigh then
                    (searchDepthHighQuality, minMatchConfidenceHighQuality)
                  else if Quality fp = qualityMedium then
                    (searchDepthMediumQuality, minMatchConfidenceMediumQuality)
                  else (searchDepthLowQuality, minMatchConfidenceLowQuality))
           in case query fp 0 numRows minDBScorePercent of
                Inl err \<Rightarrow> Inl (Failed err)
              | Inr results \<Rightarrow>
                  (case resultsLoop sz fp minMatchConfidence results [] of
                     Inl f \<Rightarrow> Inl f
                   | Inr matches \<Rightarrow>
                       if 0 < length matches then
                         (case determineBestMatch (sortByConfidence matches) of
                            Inl f \<Rightarrow> Inl f
                          | Inr matches' \<Rightarrow> Inr (clampMatchConfidence matches'))
                       else Inr matches)))"

subsection \<open>MatchAll\<close>

text \<open>
  The body of the goroutine that \<open>MatchAll\<close> starts for one element: what it writes to
  its slot \<open>allMatches[group]\<close>, or the panic it dies with. A returned \<open>error\<close> becomes
  a one-element group; a panic is not recovered.
\<close>

definition matchGroup ::
  "intSize \<Rightarrow> (string \<Rightarrow> error + string) \<Rightarrow> dbQuery \<Rightarrow> CodegenFp \<Rightarrow> panic + MatchResult list"
where
  "matchGroup sz inflate query codegenFp =
     (case NewFingerprint inflate codegenFp of
        Inl (Failed err) \<Rightarrow> Inr (newMatchGroupError err)
      | Inl (Panicked p) \<Rightarrow> Inl p
      | Inr fp \<Rightarrow>
          (case Match sz query fp of
             Inl (Failed err) \<Rightarrow> Inr (newMatchGroupError err)
           | Inl (Panicked p) \<Rightarrow> Inl p
           | Inr matches \<Rightarrow> Inr matches))"

text \<open>
  \<open>MatchAll\<close> starts one goroutine per element and waits for all of them. Each
  goroutine writes only its own slot, so the slots are those of a sequential run. A
  panic in any goroutine ends the whole process: then \<open>MatchAll\<close> returns nothing,
  which is \<open>None\<close> here.
\<close>

fun joinGroups :: "(panic + 'a) list \<Rightarrow> 'a list option" where
  "joinGroups [] = Some []"
| "joinGroups (g # gs) =
     (case g of
        Inl p \<Rightarrow> None
      | Inr v \<Rightarrow> (case joinGroups gs of None \<Rightarrow> None | Some vs \<Rightarrow> Some (v # vs)))"

definition MatchAll ::
  "intSize \<Rightarrow> (string \<Rightarrow> error + string) \<Rightarrow> dbQuery \<Rightarrow> CodegenFp list \<Rightarrow> MatchResult list list option"
where
  "MatchAll sz inflate query codegenList = joinGroups (map (matchGroup sz inflate query) codegenList)"

subsection \<open>Notions used to state the properties\<close>

text \<open>
  A hexadecimal digit is one of \<open>0\<close> to \<open>9\<close> (bytes 48 to 57), \<open>a\<close> to \<open>f\<close>
  (97 to 102) and \<open>A\<close> to \<open>F\<close> (65 to 70).
\<close>

definition isHexDigit :: "char \<Rightarrow> bool" where
  "isHexDigit c =
     (let n = (of_char c :: nat) in
      (48 \<le> n \<and> n \<le> 57) \<or> (97 \<le> n \<and> n \<le> 102) \<or> (65 \<le> n \<and> n \<le> 70))"

text \<open>The \<open>i\<close>-th group of five characters of a string, and whether it is all hexadecimal.\<close>

definition hexGroup :: "string \<Rightarrow> nat \<Rightarrow> string" where
  "hexGroup s i = take 5 (drop (i * 5) s)"

definition groupOK :: "string \<Rightarrow> nat \<Rightarrow> bool" where
  "groupOK s i = list_all isHexDigit (hexGroup s i)"

text \<open>The zero value of \<open>metadata\<close>.\<close>

definition zeroMetadata :: metadata where
  "zeroMetadata =
     \<lparr>metadata.TrackID = 0, UPC = [], ISRC = [], Version = 0, Filename = [], Bitrate = 0,
      Duration = 0\<rparr>"

text \<open>
  The fingerprints the core produces: those that \<open>NewFingerprint\<close> returns, and those
  that \<open>NewClamped\<close> returns when given one of them.
\<close>

inductive produced :: "(string \<Rightarrow> error + string) \<Rightarrow> Fingerprint \<Rightarrow> bool"
  for inflate :: "string \<Rightarrow> error + string"
where
  by_decoding: "NewFingerprint inflate codegenFp = Inr fp \<Longrightarrow> produced inflate fp"
| by_clamping: "produced inflate fp \<Longrightarrow> NewClamped fp = Inr fp' \<Longrightarrow> produced inflate fp'"

subsection \<open>Facts about the codec\<close>

lemma digitVal_hex: "isHexDigit c \<Longrightarrow> \<exists>d. digitVal c = Some d \<and> d < 16"
  by (auto simp: isHexDigit_def digitVal_def Let_def)

lemma digitVal_not_hex: "\<not> isHexDigit c \<Longrightarrow> digitVal c = None \<or> (\<exists>d. digitVal c = Some d \<and> 16 \<le> d)"
  by (auto simp: isHexDigit_def digitVal_def Let_def)

lemma digit_step_bound:
  fixes n d m M :: nat
  assumes "d < 16" and "(n + 1) * 16 ^ Suc m \<le> M"
  shows "(n * 16 + d + 1) * 16 ^ m \<le> M" and "n * 16 + d < M"
proof -
  have "n * 16 + d + 1 \<le> (n + 1) * 16" using assms(1) by simp
  then have "(n * 16 + d + 1) * 16 ^ m \<le> ((n + 1) * 16) * 16 ^ m"
    by (rule mult_le_mono1)
  also have "((n + 1) * 16) * 16 ^ m = (n + 1) * 16 ^ Suc m"
    by (simp only: power_Suc mult.assoc)
  finally show first: "(n * 16 + d + 1) * 16 ^ m \<le> M" using assms(2) by linarith
  have "(n * 16 + d + 1) * 1 \<le> (n * 16 + d + 1) * 16 ^ m"
    by (rule mult_le_mono2) simp
  from this first have "(n * 16 + d + 1) * 1 \<le> M" by (rule le_trans)
  then show "n * 16 + d < M" by simp
qed

lemma parseDigits_hex:
  "list_all isHexDigit cs \<Longrightarrow> (n + 1) * 16 ^ length cs \<le> 2 ^ 32 \<Longrightarrow> \<exists>v. parseDigits n cs = Inr v"
proof (induction cs arbitrary: n)
  case Nil
  then show ?case by simp
next
  case (Cons c cs)
  from Cons.prems(1) obtain d where d: "digitVal c = Some d" "d < 16"
    using digitVal_hex by auto
  from Cons.prems(2) have "(n + 1) * 16 ^ Suc (length cs) \<le> 2 ^ 32" by simp
  from digit_step_bound [OF d(2) this]
  have bound: "(n * 16 + d + 1) * 16 ^ length cs \<le> 2 ^ 32" and small: "n * 16 + d < 2 ^ 32" .
  from Cons.prems(1) have "list_all isHexDigit cs" by simp
  from Cons.IH [OF this, of "n * 16 + d"] bound
  obtain v where "parseDigits (n * 16 + d) cs = Inr v" by auto
  with d small show ?case by simp
qed

lemma parseDigits_not_hex:
  "\<not> list_all isHexDigit cs \<Longrightarrow> (n + 1) * 16 ^ length cs \<le> 2 ^ 32 \<Longrightarrow> parseDigits n cs = Inl ErrSyntax"
proof (induction cs arbitrary: n)
  case Nil
  then show ?case by simp
next
  case (Cons c cs)
  show ?case
  proof (cases "isHexDigit c")
    case False
    with digitVal_not_hex [of c] show ?thesis by auto
  next
    case True
    then obtain d where d: "digitVal c = Some d" "d < 16"
      using digitVal_hex by auto
    from Cons.prems(2) have "(n + 1) * 16 ^ Suc (length cs) \<le> 2 ^ 32" by simp
    from digit_step_bound [OF d(2) this]
    have bound: "(n * 16 + d + 1) * 16 ^ length cs \<le> 2 ^ 32" and small: "n * 16 + d < 2 ^ 32" .
    from Cons.prems(1) True have "\<not> list_all isHexDigit cs" by simp
    from Cons.IH [OF this, of "n * 16 + d"] bound
    have "parseDigits (n * 16 + d) cs = Inl ErrSyntax" by simp
    with d small show ?thesis by simp
  qed
qed

lemma hexGroup_length: "i * 5 + 5 \<le> length s \<Longrightarrow> length (hexGroup s i) = 5"
  by (simp add: hexGroup_def)

lemma parseGroup_ok:
  assumes "i * 5 + 5 \<le> length s" and "groupOK s i"
  shows "\<exists>v. parseGroup s i = Inr v"
proof -
  have len: "length (hexGroup s i) = 5" using assms(1) by (rule hexGroup_length)
  then have ne: "hexGroup s i \<noteq> []" by auto
  have "(0 + 1) * 16 ^ length (hexGroup s i) \<le> (2::nat) ^ 32" using len by simp
  with assms(2) obtain v where "parseDigits 0 (hexGroup s i) = Inr v"
    unfolding groupOK_def using parseDigits_hex by blast
  with ne assms(1) show ?thesis
    by (simp add: parseGroup_def substr_def ParseUint_def hexGroup_def)
qed

lemma parseGroup_bad:
  assumes "i * 5 + 5 \<le> length s" and "\<not> groupOK s i"
  shows "parseGroup s i = Inl (Failed ErrSyntax)"
proof -
  have len: "length (hexGroup s i) = 5" using assms(1) by (rule hexGroup_length)
  then have ne: "hexGroup s i \<noteq> []" by auto
  have "(0 + 1) * 16 ^ length (hexGroup s i) \<le> (2::nat) ^ 32" using len by simp
  with assms(2) have "parseDigits 0 (hexGroup s i) = Inl ErrSyntax"
    unfolding groupOK_def using parseDigits_not_hex by blast
  with ne assms(1) show ?thesis
    by (simp add: parseGroup_def substr_def ParseUint_def hexGroup_def)
qed

lemma timesLoop_cases:
  "len * 5 \<le> length s \<Longrightarrow> length tms = len \<Longrightarrow>
   (if \<forall>k. i \<le> k \<and> k < len \<longrightarrow> groupOK s k
    then \<exists>ts. timesLoop s len i tms = Inr ts \<and> length ts = len
    else timesLoop s len i tms = Inl (Failed ErrSyntax))"
proof (induction s len i tms rule: timesLoop.induct)
  case (1 fp len i tms)
  show ?case
  proof (cases "i < len")
    case False
    then show ?thesis using "1.prems" by (simp add: timesLoop.simps)
  next
    case True
    then have inb: "i * 5 + 5 \<le> length fp" using "1.prems"(1) by linarith
    show ?thesis
    proof (cases "groupOK fp i")
      case False
      with inb have "parseGroup fp i = Inl (Failed ErrSyntax)" by (simp add: parseGroup_bad)
      with True False show ?thesis
        by (subst timesLoop.simps) auto
    next
      case ok: True
      with inb obtain v where v: "parseGroup fp i = Inr v" using parseGroup_ok by blast
      have st: "store tms i v = Inr (tms[i := v])"
        using True "1.prems"(2) by (simp add: store_def)
      have unfold: "timesLoop fp len i tms = timesLoop fp len (Suc i) (tms[i := v])"
        using True v st by (subst timesLoop.simps) simp
      have rest: "(\<forall>k. i \<le> k \<and> k < len \<longrightarrow> groupOK fp k) = (\<forall>k. Suc i \<le> k \<and> k < len \<longrightarrow> groupOK fp k)"
        using ok by (metis Suc_leI le_neq_implies_less Suc_leD)
      have "length (tms[i := v]) = len" using "1.prems"(2) by simp
      from "1.IH" [OF True v st "1.prems"(1) this]
      show ?thesis unfolding unfold rest .
    qed
  qed
qed

lemma half_cases:
  fixes len tc :: nat
  assumes "len = tc div 2"
  shows "(even tc \<and> tc = 2 * len) \<or> (odd tc \<and> tc = 2 * len + 1)"
  using assms by (cases "even tc") auto

lemma codesLoop_cases:
  "tupleCount * 5 \<le> length s \<Longrightarrow> length codes = len \<Longrightarrow> len \<le> i \<Longrightarrow> len = tupleCount div 2 \<Longrightarrow>
   (if \<exists>k. i \<le> k \<and> k < tupleCount \<and> \<not> groupOK s k
    then codesLoop s len tupleCount i codes = Inl (Failed ErrSyntax)
    else if i < tupleCount \<and> odd tupleCount
    then codesLoop s len tupleCount i codes = Inl (Panicked IndexOutOfRange)
    else \<exists>cs. codesLoop s len tupleCount i codes = Inr cs \<and> length cs = len)"
proof (induction s len tupleCount i codes rule: codesLoop.induct)
  case (1 fp len tupleCount i codes)
  show ?case
  proof (cases "i < tupleCount")
    case False
    then show ?thesis using "1.prems" by (simp add: codesLoop.simps)
  next
    case True
    then have inb: "i * 5 + 5 \<le> length fp" using "1.prems"(1) by linarith
    show ?thesis
    proof (cases "groupOK fp i")
      case False
      with inb have "parseGroup fp i = Inl (Failed ErrSyntax)" by (simp add: parseGroup_bad)
      moreover have "\<exists>k. i \<le> k \<and> k < tupleCount \<and> \<not> groupOK fp k" using True False by blast
      ultimately show ?thesis using True
        by (subst codesLoop.simps) simp
    next
      case ok: True
      with inb obtain v where v: "parseGroup fp i = Inr v" using parseGroup_ok by blast
      have rest: "(\<exists>k. i \<le> k \<and> k < tupleCount \<and> \<not> groupOK fp k) = (\<exists>k. Suc i \<le> k \<and> k < tupleCount \<and> \<not> groupOK fp k)"
        using ok by (metis Suc_leI le_neq_implies_less Suc_leD)
      show ?thesis
      proof (cases "i - len < len")
        case inr: True
        have st: "store codes (i - len) v = Inr (codes[i - len := v])"
          using inr "1.prems"(2) by (simp add: store_def)
        have unfold: "codesLoop fp len tupleCount i codes = codesLoop fp len tupleCount (Suc i) (codes[i - len := v])"
          using True v st by (subst codesLoop.simps) simp
        have l: "length (codes[i - len := v]) = len" using "1.prems"(2) by simp
        have le: "len \<le> Suc i" using "1.prems"(3) by simp
        have odd_case: "(i < tupleCount \<and> odd tupleCount) = (Suc i < tupleCount \<and> odd tupleCount)"
          using inr True "1.prems"(3) half_cases [OF "1.prems"(4)] by auto
        from "1.IH" [OF True v st "1.prems"(1) l le "1.prems"(4)]
        show ?thesis unfolding unfold rest odd_case .
      next
        case outr: False
        have st: "store codes (i - len) v = Inl (Panicked IndexOutOfRange)"
          using outr "1.prems"(2) by (simp add: store_def)
        have res: "codesLoop fp len tupleCount i codes = Inl (Panicked IndexOutOfRange)"
          using True v st by (subst codesLoop.simps) simp
        have last: "Suc i = tupleCount" and od: "odd tupleCount"
          using outr True "1.prems"(3) half_cases [OF "1.prems"(4)] by auto
        have "\<not> (\<exists>k. Suc i \<le> k \<and> k < tupleCount \<and> \<not> groupOK fp k)" using last by simp
        with rest res True od show ?thesis by simp
      qed
    qed
  qed
qed

lemma decode_cases:
  "(if \<exists>k. k < length s div 5 \<and> \<not> groupOK s k
    then decode s = Inl (Failed ErrSyntax)
    else if odd (length s div 5)
    then decode s = Inl (Panicked IndexOutOfRange)
    else \<exists>cs ts. decode s = Inr (cs, ts) \<and> length cs = length s div 5 div 2
           \<and> length ts = length s div 5 div 2)"
proof -
  define tc where "tc = length s div 5"
  define len where "len = tc div 2"
  have tc5: "tc * 5 \<le> length s" unfolding tc_def by simp
  have len5: "len * 5 \<le> length s" unfolding len_def tc_def by simp
  have lentc: "len \<le> tc" unfolding len_def by simp
  have dec: "decode s =
      (case timesLoop s len 0 (replicate len 0) of
         Inl f \<Rightarrow> Inl f
       | Inr tms' \<Rightarrow>
           (case codesLoop s len tc len (replicate len 0) of
              Inl f \<Rightarrow> Inl f
            | Inr codes' \<Rightarrow> Inr (codes', tms')))"
    unfolding decode_def Let_def tc_def len_def ..
  note T = timesLoop_cases [of len s "replicate len 0" 0, OF len5, simplified]
  note C = codesLoop_cases [of tc s "replicate len 0" len len, OF tc5 _ le_refl len_def, simplified]
  show ?thesis
  proof (cases "\<forall>k. k < len \<longrightarrow> groupOK s k")
    case False
    with T have "timesLoop s len 0 (replicate len 0) = Inl (Failed ErrSyntax)" by simp
    moreover from False lentc have "\<exists>k. k < tc \<and> \<not> groupOK s k"
      by (meson less_le_trans)
    ultimately show ?thesis unfolding dec tc_def [symmetric] by simp
  next
    case first: True
    with T obtain ts where ts: "timesLoop s len 0 (replicate len 0) = Inr ts" "length ts = len"
      by auto
    show ?thesis
    proof (cases "\<exists>k. len \<le> k \<and> k < tc \<and> \<not> groupOK s k")
      case True
      with C have "codesLoop s len tc len (replicate len 0) = Inl (Failed ErrSyntax)" by simp
      moreover from True have "\<exists>k. k < tc \<and> \<not> groupOK s k" by blast
      ultimately show ?thesis unfolding dec tc_def [symmetric] using ts by simp
    next
      case second: False
      with first have all: "\<not> (\<exists>k. k < tc \<and> \<not> groupOK s k)"
        by (meson not_le)
      show ?thesis
      proof (cases "odd tc")
        case True
        then have "len < tc" using half_cases [OF len_def] by auto
        with C second True have "codesLoop s len tc len (replicate len 0) = Inl (Panicked IndexOutOfRange)"
          by simp
        with all True show ?thesis unfolding dec tc_def [symmetric] using ts by simp
      next
        case False
        with C second obtain cs where "codesLoop s len tc len (replicate len 0) = Inr cs" "length cs = len"
          by auto
        with all False show ?thesis unfolding dec tc_def [symmetric] len_def [symmetric] using ts by simp
      qed
    qed
  qed
qed

lemma all_hex_groupOK: "list_all isHexDigit s \<Longrightarrow> groupOK s k"
proof -
  assume a: "list_all isHexDigit s"
  have "set (hexGroup s k) \<subseteq> set s"
    unfolding hexGroup_def using set_take_subset set_drop_subset by fast
  with a show ?thesis unfolding groupOK_def list_all_iff by blast
qed

text \<open>
  C9. On a string of hexadecimal digits only, \<open>decode\<close> returns a result exactly when
  the number of complete five-digit groups, \<open>len(fp) / 5\<close>, is even. When it is odd, in
  particular when the length is \<open>5 * (2k + 1)\<close>, \<open>decode\<close> does not return an error:
  it panics with an index out of range, the last store being at index
  \<open>tupleCount - 1 - length = length\<close> of the \<open>codes\<close> slice of \<open>length = tupleCount / 2\<close>
  elements.
\<close>

theorem decode_hex_returns_iff_even_groups:
  assumes "list_all isHexDigit s"
  shows "((\<exists>r. decode s = Inr r) \<longleftrightarrow> even (length s div 5))
       \<and> (odd (length s div 5) \<longrightarrow>
            decode s = Inl (Panicked IndexOutOfRange)
          \<and> store (replicate (length s div 5 div 2) (0 :: uint32))
                  (length s div 5 - 1 - length s div 5 div 2) v
              = Inl (Panicked IndexOutOfRange))
       \<and> (length s = 5 * (2 * k + 1) \<longrightarrow> decode s = Inl (Panicked IndexOutOfRange))"
proof -
  have ok: "\<not> (\<exists>k. k < length s div 5 \<and> \<not> groupOK s k)"
    using assms all_hex_groupOK by blast
  have odd_panics: "decode s = Inl (Panicked IndexOutOfRange)" if "odd (length s div 5)"
    using decode_cases [of s] ok that by simp
  have even_returns: "\<exists>r. decode s = Inr r" if "even (length s div 5)"
    using decode_cases [of s] ok that by auto
  have first: "(\<exists>r. decode s = Inr r) \<longleftrightarrow> even (length s div 5)"
  proof
    assume ret: "\<exists>r. decode s = Inr r"
    show "even (length s div 5)"
    proof (rule ccontr)
      assume "odd (length s div 5)"
      then have "decode s = Inl (Panicked IndexOutOfRange)" by (rule odd_panics)
      with ret show False by simp
    qed
  next
    assume "even (length s div 5)"
    then show "\<exists>r. decode s = Inr r" by (rule even_returns)
  qed
  have idx: "store (replicate (length s div 5 div 2) (0 :: uint32))
                  (length s div 5 - 1 - length s div 5 div 2) v
              = Inl (Panicked IndexOutOfRange)" if "odd (length s div 5)"
  proof -
    define tc where "tc = length s div 5"
    define len where "len = tc div 2"
    from half_cases [OF len_def] that have "tc = 2 * len + 1" by (simp add: tc_def)
    then have "tc - 1 - len = len" by simp
    then have "store (replicate len (0 :: uint32)) (tc - 1 - len) v = Inl (Panicked IndexOutOfRange)"
      by (simp add: store_def)
    then show ?thesis unfolding len_def tc_def .
  qed
  have third: "decode s = Inl (Panicked IndexOutOfRange)" if "length s = 5 * (2 * k + 1)"
  proof -
    from that have "length s div 5 = 2 * k + 1" by simp
    then have "odd (length s div 5)" by simp
    then show ?thesis by (rule odd_panics)
  qed
  from first odd_panics idx third show ?thesis by blast
qed

theorem decode_hex_returns_iff_even_groups_witness:
  "list_all isHexDigit ''00000''
   \<and> decode ''00000'' = Inl (Panicked IndexOutOfRange)
   \<and> length ''00000'' = 5 * (2 * 0 + 1)
   \<and> list_all isHexDigit ''0000a0000B''
   \<and> even (length ''0000a0000B'' div 5)
   \<and> (\<exists>r. decode ''0000a0000B'' = Inr r)"
proof -
  have h1: "list_all isHexDigit ''00000''" by (simp add: isHexDigit_def)
  have h2: "list_all isHexDigit ''0000a0000B''" by (simp add: isHexDigit_def)
  from decode_hex_returns_iff_even_groups [OF h1, where k = 0 and v = 0]
  have a: "decode ''00000'' = Inl (Panicked IndexOutOfRange)" by simp
  from decode_hex_returns_iff_even_groups [OF h2, where k = 0 and v = 0]
  have b: "\<exists>r. decode ''0000a0000B'' = Inr r" by simp
  from h1 h2 a b show ?thesis by simp
qed

subsection \<open>Codes and times have the same length\<close>

lemma decode_lengths: "decode s = Inr (cs, ts) \<Longrightarrow> length cs = length ts"
  using decode_cases [of s] by (auto split: if_splits)

lemma NewFingerprint_lengths:
  "NewFingerprint inflate codegenFp = Inr fp \<Longrightarrow> length (Codes fp) = length (Times fp)"
  by (auto simp: NewFingerprint_def decode_lengths split: sum.splits)

lemma NewClamped_lengths:
  "NewClamped fp = Inr fp' \<Longrightarrow> length (Codes fp) = length (Times fp)
     \<Longrightarrow> length (Codes fp') = length (Times fp')"
  by (auto simp: NewClamped_def index_def sliceTo_def Let_def split: if_splits option.splits)

text \<open>
  C8. Every fingerprint the core produces, by a successful decoding or by the window
  clamper applied to a produced fingerprint, has as many codes as times; and so has
  every pair of sequences that \<open>decode\<close> returns.
\<close>

theorem produced_codes_times_same_length:
  "(decode s = Inr (cs, ts) \<longrightarrow> length cs = length ts)
   \<and> (produced inflate fp \<longrightarrow> length (Codes fp) = length (Times fp))"
proof
  show "decode s = Inr (cs, ts) \<longrightarrow> length cs = length ts"
    using decode_lengths by blast
  show "produced inflate fp \<longrightarrow> length (Codes fp) = length (Times fp)"
  proof
    assume "produced inflate fp"
    then show "length (Codes fp) = length (Times fp)"
    proof (induction rule: produced.induct)
      case (by_decoding codegenFp fp)
      then show ?case by (rule NewFingerprint_lengths)
    next
      case (by_clamping fp fp')
      from by_clamping.hyps(2) by_clamping.IH show ?case by (rule NewClamped_lengths)
    qed
  qed
qed

lemmas decode_eval = decode_def timesLoop.simps codesLoop.simps store_def parseGroup_def
  substr_def ParseUint_def digitVal_def

lemmas NewClamped_eval = NewClamped_def index_def sliceTo_def fpSixtySecOffset_def

theorem produced_codes_times_same_length_witness:
  "decode ''0000101f400000a0000b'' = Inr ([10, 11], [1, 8000])
   \<and> length [10, 11 :: uint32] = length [1, 8000 :: uint32]
   \<and> produced (\<lambda>c. if c = ''eJwzMDAwMDQwTDMxAIFEEJEEACvYBGA='' then Inr ''0000101f400000a0000b'' else Inl (ErrOther ''corrupt''))
        \<lparr>Codes = [10], Times = [1], Meta = zeroMetadata, clamped = True\<rparr>
   \<and> length (Codes \<lparr>Codes = [10], Times = [1], Meta = zeroMetadata, clamped = True\<rparr>)
       = length (Times \<lparr>Codes = [10], Times = [1], Meta = zeroMetadata, clamped = True\<rparr>)"
proof -
  let ?inflate = "\<lambda>c. if c = ''eJwzMDAwMDQwTDMxAIFEEJEEACvYBGA='' then Inr ''0000101f400000a0000b'' else Inl (ErrOther ''corrupt'')"
  let ?fp = "\<lparr>Codes = [10, 11], Times = [1, 8000], Meta = zeroMetadata, clamped = False\<rparr>"
  let ?fp' = "\<lparr>Codes = [10], Times = [1], Meta = zeroMetadata, clamped = True\<rparr>"
  have r2: "replicate 2 (0 :: uint32) = [0, 0]" by (simp add: numeral_2_eq_2)
  have d: "decode ''0000101f400000a0000b'' = Inr ([10, 11], [1, 8000])"
    by (simp add: decode_eval Let_def r2)
  have "NewFingerprint ?inflate \<lparr>cgMeta = zeroMetadata, Code = ''eJwzMDAwMDQwTDMxAIFEEJEEACvYBGA=''\<rparr> = Inr ?fp"
    by (simp add: NewFingerprint_def d)
  then have p: "produced ?inflate ?fp" by (rule produced.by_decoding)
  have "NewClamped ?fp = Inr ?fp'" by (simp add: NewClamped_eval)
  with p have p': "produced ?inflate ?fp'" by (rule produced.by_clamping)
  from produced_codes_times_same_length [of "''0000101f400000a0000b''" "[10, 11]" "[1, 8000]" ?inflate ?fp'] d p'
  show ?thesis by simp
qed

subsection \<open>Where NewClamped cuts\<close>

lemma clampScan_None_iff: "clampScan b ts i = None \<longleftrightarrow> (\<forall>t \<in> set ts. t \<le> b)"
  by (induction ts arbitrary: i) (auto simp: not_less)

lemma clampScan_first:
  "k < length ts \<Longrightarrow> b < ts ! k \<Longrightarrow> (\<forall>j < k. ts ! j \<le> b) \<Longrightarrow> clampScan b ts i = Some (i + k)"
proof (induction ts arbitrary: i k)
  case Nil
  then show ?case by simp
next
  case (Cons t ts)
  show ?case
  proof (cases k)
    case 0
    with Cons.prems show ?thesis by simp
  next
    case (Suc k')
    from Cons.prems(3) Suc have "t \<le> b" by auto
    moreover have "clampScan b ts (Suc i) = Some (Suc i + k')"
    proof (rule Cons.IH)
      show "k' < length ts" using Cons.prems(1) Suc by simp
      show "b < ts ! k'" using Cons.prems(2) Suc by simp
      show "\<forall>j < k'. ts ! j \<le> b" using Cons.prems(3) Suc by auto
    qed
    ultimately show ?thesis using Suc by (simp add: not_less)
  qed
qed

lemma clampScan_Some:
  "clampScan b ts i = Some n \<Longrightarrow>
     i \<le> n \<and> n - i < length ts \<and> b < ts ! (n - i) \<and> (\<forall>t \<in> set (take (n - i) ts). t \<le> b)"
proof (induction ts arbitrary: i)
  case Nil
  then show ?case by simp
next
  case (Cons t ts)
  show ?case
  proof (cases "b < t")
    case True
    with Cons.prems show ?thesis by simp
  next
    case False
    with Cons.prems have rec: "clampScan b ts (Suc i) = Some n" by simp
    from Cons.IH [OF rec]
    have ih: "Suc i \<le> n" "n - Suc i < length ts" "b < ts ! (n - Suc i)"
      "\<forall>t \<in> set (take (n - Suc i) ts). t \<le> b" by auto
    from ih(1) have split: "n - i = Suc (n - Suc i)" by simp
    from False have "t \<le> b" by (simp add: not_less)
    with ih show ?thesis unfolding split by auto
  qed
qed

lemma NewClamped_unfold:
  assumes "Times fp \<noteq> []"
  shows "NewClamped fp =
      (case clampScan (Times fp ! 0 + 3 * of_nat fpSixtySecOffset) (Times fp) 0 of
         None \<Rightarrow> Inr \<lparr>Codes = Codes fp, Times = Times fp, Meta = Meta fp, clamped = True\<rparr>
       | Some i \<Rightarrow>
           (case sliceTo (Codes fp) i of
              Inl f \<Rightarrow> Inl f
            | Inr cs \<Rightarrow>
                (case sliceTo (Times fp) i of
                   Inl f \<Rightarrow> Inl f
                 | Inr ts \<Rightarrow> Inr \<lparr>Codes = cs, Times = ts, Meta = Meta fp, clamped = True\<rparr>)))"
proof -
  have b_eq: "of_nat (fpSixtySecOffset * 3) + Times fp ! 0 = Times fp ! 0 + 3 * of_nat fpSixtySecOffset"
    by (simp add: fpSixtySecOffset_def)
  have idx: "index (Times fp) 0 = Inr (Times fp ! 0)"
    using assms by (simp add: index_def)
  show ?thesis unfolding NewClamped_def idx sum.case Let_def b_eq ..
qed

lemma NewClamped_empty: "Times fp = [] \<Longrightarrow> NewClamped fp = Inl (Panicked IndexOutOfRange)"
  by (simp add: NewClamped_def index_def)

lemma NewClamped_returns:
  assumes "Times fp \<noteq> []" and "length (Times fp) \<le> length (Codes fp)"
  shows "\<exists>fp'. NewClamped fp = Inr fp' \<and> clamped fp'"
proof (cases "clampScan (Times fp ! 0 + 3 * of_nat fpSixtySecOffset) (Times fp) 0")
  case None
  then show ?thesis unfolding NewClamped_unfold [OF assms(1)] by simp
next
  case (Some i)
  from clampScan_Some [OF Some] have "i < length (Times fp)" by simp
  with assms(2) Some show ?thesis
    unfolding NewClamped_unfold [OF assms(1)] by (simp add: sliceTo_def)
qed

text \<open>
  C6. For a fingerprint with non-empty \<open>Times\<close> (and at least as many codes as times),
  with the boundary \<open>Times[0] + 3 * fpSixtySecOffset\<close> computed on \<open>uint32\<close> and
  \<open>fpSixtySecOffset = 2586\<close>: if no time exceeds the boundary, \<open>NewClamped\<close> returns the
  same \<open>Codes\<close>, \<open>Times\<close> and \<open>Meta\<close>; if \<open>i\<close> is the first index whose time exceeds
  it, \<open>NewClamped\<close> returns the first \<open>i\<close> codes and the first \<open>i\<close> times; and in every
  case it returns a fingerprint with \<open>clamped = true\<close>.
\<close>

theorem NewClamped_truncates_at_first_exceeding:
  assumes "Times fp \<noteq> []" and "length (Times fp) \<le> length (Codes fp)"
  shows "fpSixtySecOffset = 2586
     \<and> ((\<forall>t \<in> set (Times fp). t \<le> Times fp ! 0 + 3 * of_nat fpSixtySecOffset) \<longrightarrow>
          NewClamped fp = Inr \<lparr>Codes = Codes fp, Times = Times fp, Meta = Meta fp, clamped = True\<rparr>)
     \<and> (\<forall>i. i < length (Times fp) \<and> Times fp ! 0 + 3 * of_nat fpSixtySecOffset < Times fp ! i
             \<and> (\<forall>j < i. Times fp ! j \<le> Times fp ! 0 + 3 * of_nat fpSixtySecOffset) \<longrightarrow>
          NewClamped fp =
            Inr \<lparr>Codes = take i (Codes fp), Times = take i (Times fp), Meta = Meta fp, clamped = True\<rparr>)
     \<and> (\<exists>fp'. NewClamped fp = Inr fp' \<and> clamped fp')"
proof -
  define b where "b = Times fp ! 0 + 3 * of_nat fpSixtySecOffset"
  note nc = NewClamped_unfold [OF assms(1), folded b_def]
  have none: "NewClamped fp = Inr \<lparr>Codes = Codes fp, Times = Times fp, Meta = Meta fp, clamped = True\<rparr>"
    if "\<forall>t \<in> set (Times fp). t \<le> b"
  proof -
    from that have "clampScan b (Times fp) 0 = None" by (simp add: clampScan_None_iff)
    then show ?thesis unfolding nc by simp
  qed
  have some: "NewClamped fp =
      Inr \<lparr>Codes = take i (Codes fp), Times = take i (Times fp), Meta = Meta fp, clamped = True\<rparr>"
    if "i < length (Times fp)" "b < Times fp ! i" "\<forall>j < i. Times fp ! j \<le> b" for i
  proof -
    from clampScan_first [OF that, of 0] have "clampScan b (Times fp) 0 = Some i" by simp
    moreover have "sliceTo (Codes fp) i = Inr (take i (Codes fp))"
      using that(1) assms(2) by (simp add: sliceTo_def)
    moreover have "sliceTo (Times fp) i = Inr (take i (Times fp))"
      using that(1) by (simp add: sliceTo_def)
    ultimately show ?thesis unfolding nc by simp
  qed
  from none some NewClamped_returns [OF assms] show ?thesis
    unfolding b_def [symmetric] by (simp add: fpSixtySecOffset_def)
qed

theorem NewClamped_truncates_at_first_exceeding_witness:
  "Times \<lparr>Codes = [10, 11, 12], Times = [1, 5000, 8000], Meta = zeroMetadata, clamped = False\<rparr> \<noteq> []
   \<and> NewClamped \<lparr>Codes = [10, 11, 12], Times = [1, 5000, 8000], Meta = zeroMetadata, clamped = False\<rparr>
      = Inr \<lparr>Codes = [10, 11], Times = [1, 5000], Meta = zeroMetadata, clamped = True\<rparr>
   \<and> NewClamped \<lparr>Codes = [10, 11], Times = [1, 5000], Meta = zeroMetadata, clamped = False\<rparr>
      = Inr \<lparr>Codes = [10, 11], Times = [1, 5000], Meta = zeroMetadata, clamped = True\<rparr>"
proof -
  let ?fp = "\<lparr>Codes = [10, 11, 12], Times = [1, 5000, 8000], Meta = zeroMetadata, clamped = False\<rparr>"
  let ?fp2 = "\<lparr>Codes = [10, 11], Times = [1, 5000], Meta = zeroMetadata, clamped = False\<rparr>"
  have h1: "Times ?fp \<noteq> []" and h2: "length (Times ?fp) \<le> length (Codes ?fp)" by simp_all
  have g1: "Times ?fp2 \<noteq> []" and g2: "length (Times ?fp2) \<le> length (Codes ?fp2)" by simp_all
  have lt: "\<forall>j < 2. [1, 5000, 8000 :: uint32] ! j \<le> 7759"
  proof (intro allI impI)
    fix j :: nat
    assume "j < 2"
    then have "j = 0 \<or> j = 1" by auto
    then show "[1, 5000, 8000 :: uint32] ! j \<le> 7759" by auto
  qed
  from NewClamped_truncates_at_first_exceeding [OF h1 h2]
  have "2 < length (Times ?fp) \<and> Times ?fp ! 0 + 3 * of_nat fpSixtySecOffset < Times ?fp ! 2
             \<and> (\<forall>j < 2. Times ?fp ! j \<le> Times ?fp ! 0 + 3 * of_nat fpSixtySecOffset) \<longrightarrow>
          NewClamped ?fp =
            Inr \<lparr>Codes = take 2 (Codes ?fp), Times = take 2 (Times ?fp), Meta = Meta ?fp, clamped = True\<rparr>"
    by blast
  with lt have a: "NewClamped ?fp = Inr \<lparr>Codes = [10, 11], Times = [1, 5000], Meta = zeroMetadata, clamped = True\<rparr>"
    by (simp add: fpSixtySecOffset_def)
  from NewClamped_truncates_at_first_exceeding [OF g1 g2]
  have b: "NewClamped ?fp2 = Inr \<lparr>Codes = [10, 11], Times = [1, 5000], Meta = zeroMetadata, clamped = True\<rparr>"
    by (simp add: fpSixtySecOffset_def)
  from a b show ?thesis by simp
qed

subsection \<open>Decoded times are below \<open>2^20\<close>\<close>

lemma parseDigits_bound: "parseDigits n cs = Inr v \<Longrightarrow> v < (n + 1) * 16 ^ length cs"
proof (induction cs arbitrary: n)
  case Nil
  then show ?case by simp
next
  case (Cons c cs)
  from Cons.prems obtain d where d: "digitVal c = Some d" "d < 16"
    and rec: "parseDigits (n * 16 + d) cs = Inr v"
    by (auto split: option.splits if_splits)
  from Cons.IH [OF rec] have "v < (n * 16 + d + 1) * 16 ^ length cs" by simp
  also have "(n * 16 + d + 1) * 16 ^ length cs \<le> ((n + 1) * 16) * 16 ^ length cs"
    using d(2) by (intro mult_le_mono1) simp
  also have "((n + 1) * 16) * 16 ^ length cs = (n + 1) * 16 ^ length (c # cs)"
    by (simp only: length_Cons power_Suc mult.assoc)
  finally show ?case .
qed

lemma parseGroup_bound:
  assumes "parseGroup s i = Inr w"
  shows "unat w < 2 ^ 20"
proof -
  from assms obtain v where inb: "i * 5 + 5 \<le> length s"
    and pu: "ParseUint (take 5 (drop (i * 5) s)) = Inr v" and w: "w = of_nat v"
    by (auto simp: parseGroup_def substr_def split: if_splits sum.splits)
  from pu have "parseDigits 0 (take 5 (drop (i * 5) s)) = Inr v"
    by (auto simp: ParseUint_def split: if_splits)
  from parseDigits_bound [OF this] inb have v: "v < 2 ^ 20" by simp
  then have "v < 2 ^ 32" by simp
  then have "unat (of_nat v :: uint32) = v" by (simp add: unat_of_nat)
  with v w show ?thesis by simp
qed

lemma timesLoop_bound:
  "timesLoop s len i tms = Inr ts \<Longrightarrow> (\<forall>t \<in> set tms. unat t < 2 ^ 20)
     \<Longrightarrow> (\<forall>t \<in> set ts. unat t < 2 ^ 20)"
proof (induction s len i tms rule: timesLoop.induct)
  case (1 fp len i tms)
  show ?case
  proof (cases "i < len")
    case False
    with "1.prems" show ?thesis by (simp add: timesLoop.simps)
  next
    case True
    from "1.prems"(1) True obtain v tms' where v: "parseGroup fp i = Inr v"
      and st: "store tms i v = Inr tms'" and rec: "timesLoop fp len (Suc i) tms' = Inr ts"
      by (subst (asm) timesLoop.simps) (auto split: sum.splits)
    from st have "tms' = tms[i := v]" by (auto simp: store_def split: if_splits)
    then have "set tms' \<subseteq> insert v (set tms)" by (simp add: set_update_subset_insert)
    with "1.prems"(2) parseGroup_bound [OF v] have "\<forall>t \<in> set tms'. unat t < 2 ^ 20" by auto
    from "1.IH" [OF True v st rec this] show ?thesis .
  qed
qed

lemma decode_times_bound:
  assumes "decode s = Inr (cs, ts)"
  shows "\<forall>t \<in> set ts. unat t < 2 ^ 20"
proof -
  from assms have "timesLoop s (length s div 5 div 2) 0 (replicate (length s div 5 div 2) 0) = Inr ts"
    by (auto simp: decode_def Let_def split: sum.splits)
  then show ?thesis by (rule timesLoop_bound) simp
qed

lemma NewFingerprint_no_wraparound:
  assumes "NewFingerprint inflate codegenFp = Inr fp" and "Times fp \<noteq> []"
  shows "unat (Times fp ! 0) + 3 * fpSixtySecOffset < 2 ^ 32"
proof -
  from assms(1) obtain s cs where "decode s = Inr (cs, Times fp)"
    by (auto simp: NewFingerprint_def split: sum.splits)
  then have "\<forall>t \<in> set (Times fp). unat t < 2 ^ 20" by (rule decode_times_bound)
  moreover have "Times fp ! 0 \<in> set (Times fp)" using assms(2) by simp
  ultimately have "unat (Times fp ! 0) < 2 ^ 20" by blast
  then show ?thesis by (simp add: fpSixtySecOffset_def)
qed

subsection \<open>Clamping twice\<close>

lemma NewClamped_idempotent:
  assumes nowrap: "unat (Times fp ! 0) + 3 * fpSixtySecOffset < 2 ^ 32"
    and ret: "NewClamped fp = Inr fp1"
  shows "NewClamped fp1 = Inr fp1"
proof -
  define b where "b = Times fp ! 0 + 3 * of_nat fpSixtySecOffset"
  have ne: "Times fp \<noteq> []"
    using ret NewClamped_empty [of fp] by auto
  have "unat (Times fp ! 0) + unat (3 * of_nat fpSixtySecOffset :: uint32) < 2 ^ LENGTH(32)"
    using nowrap by (simp add: fpSixtySecOffset_def)
  then have first_le: "Times fp ! 0 \<le> b"
    unfolding b_def by (simp only: no_olen_add_nat)
  note nc = NewClamped_unfold [OF ne, folded b_def]
  show ?thesis
  proof (cases "clampScan b (Times fp) 0")
    case None
    with ret have fp1: "fp1 = \<lparr>Codes = Codes fp, Times = Times fp, Meta = Meta fp, clamped = True\<rparr>"
      unfolding nc by simp
    have ne1: "Times fp1 \<noteq> []" using ne fp1 by simp
    have "clampScan (Times fp1 ! 0 + 3 * of_nat fpSixtySecOffset) (Times fp1) 0 = None"
      using None unfolding b_def fp1 by simp
    then show ?thesis unfolding NewClamped_unfold [OF ne1] by (simp add: fp1)
  next
    case (Some i)
    from clampScan_Some [OF Some]
    have i: "i < length (Times fp)" "b < Times fp ! i" "\<forall>t \<in> set (take i (Times fp)). t \<le> b"
      by simp_all
    have "i \<noteq> 0"
    proof
      assume "i = 0"
      with i(2) first_le show False by simp
    qed
    then have ipos: "0 < i" by simp
    from ret Some obtain cs where cs: "sliceTo (Codes fp) i = Inr cs"
      unfolding nc by (auto split: sum.splits)
    have ts: "sliceTo (Times fp) i = Inr (take i (Times fp))"
      using i(1) by (simp add: sliceTo_def)
    from ret Some cs ts
    have fp1: "fp1 = \<lparr>Codes = cs, Times = take i (Times fp), Meta = Meta fp, clamped = True\<rparr>"
      unfolding nc by simp
    have ne1: "Times fp1 \<noteq> []" using ne ipos fp1 by simp
    have hd1: "Times fp1 ! 0 = Times fp ! 0" using ipos fp1 by simp
    have "clampScan (Times fp1 ! 0 + 3 * of_nat fpSixtySecOffset) (Times fp1) 0 = None"
      unfolding hd1 b_def [symmetric] clampScan_None_iff using i(3) fp1 by simp
    then show ?thesis unfolding NewClamped_unfold [OF ne1] by (simp add: fp1)
  qed
qed

text \<open>
  C7, as the code has it. The boundary \<open>Times[0] + 3 * fpSixtySecOffset\<close> is a
  \<open>uint32\<close> sum. When it does not wrap around (\<open>Times[0] + 7758 < 2^32\<close>), clamping
  is idempotent: whatever \<open>NewClamped\<close> returns, \<open>NewClamped\<close> returns it unchanged;
  and with non-empty \<open>Times\<close> and as many codes as times it does return. Every
  fingerprint that \<open>NewFingerprint\<close> returns with non-empty \<open>Times\<close> is such a one.
\<close>

theorem NewClamped_idempotent_without_wraparound:
  "(unat (Times fp ! 0) + 3 * fpSixtySecOffset < 2 ^ 32 \<longrightarrow>
       (\<forall>fp1. NewClamped fp = Inr fp1 \<longrightarrow> NewClamped fp1 = Inr fp1)
     \<and> (Times fp \<noteq> [] \<and> length (Codes fp) = length (Times fp) \<longrightarrow>
          (\<exists>fp1. NewClamped fp = Inr fp1 \<and> NewClamped fp1 = Inr fp1)))
   \<and> (NewFingerprint inflate codegenFp = Inr fp \<and> Times fp \<noteq> [] \<longrightarrow>
        (\<exists>fp1. NewClamped fp = Inr fp1 \<and> NewClamped fp1 = Inr fp1))"
proof -
  have total: "\<exists>fp1. NewClamped fp = Inr fp1 \<and> NewClamped fp1 = Inr fp1"
    if nowrap: "unat (Times fp ! 0) + 3 * fpSixtySecOffset < 2 ^ 32"
      and ne: "Times fp \<noteq> []" and len: "length (Codes fp) = length (Times fp)"
  proof -
    from ne len obtain fp1 where r: "NewClamped fp = Inr fp1"
      using NewClamped_returns [of fp] by auto
    from NewClamped_idempotent [OF nowrap r] r show ?thesis by blast
  qed
  have decoded: "\<exists>fp1. NewClamped fp = Inr fp1 \<and> NewClamped fp1 = Inr fp1"
    if nf: "NewFingerprint inflate codegenFp = Inr fp" and ne: "Times fp \<noteq> []"
    using total [OF NewFingerprint_no_wraparound [OF nf ne] ne NewFingerprint_lengths [OF nf]] .
  from total decoded NewClamped_idempotent [of fp] show ?thesis by blast
qed

theorem NewClamped_idempotent_without_wraparound_witness:
  "unat (Times \<lparr>Codes = [10, 11, 12], Times = [1, 5000, 8000], Meta = zeroMetadata, clamped = False\<rparr> ! 0)
      + 3 * fpSixtySecOffset < 2 ^ 32
   \<and> NewClamped \<lparr>Codes = [10, 11, 12], Times = [1, 5000, 8000], Meta = zeroMetadata, clamped = False\<rparr>
      = Inr \<lparr>Codes = [10, 11], Times = [1, 5000], Meta = zeroMetadata, clamped = True\<rparr>
   \<and> NewClamped \<lparr>Codes = [10, 11], Times = [1, 5000], Meta = zeroMetadata, clamped = True\<rparr>
      = Inr \<lparr>Codes = [10, 11], Times = [1, 5000], Meta = zeroMetadata, clamped = True\<rparr>"
proof -
  let ?fp = "\<lparr>Codes = [10, 11, 12], Times = [1, 5000, 8000], Meta = zeroMetadata, clamped = False\<rparr>"
  let ?fp1 = "\<lparr>Codes = [10, 11], Times = [1, 5000], Meta = zeroMetadata, clamped = True\<rparr>"
  have h: "unat (Times ?fp ! 0) + 3 * fpSixtySecOffset < 2 ^ 32"
    by (simp add: fpSixtySecOffset_def)
  have r: "NewClamped ?fp = Inr ?fp1" by (simp add: NewClamped_eval)
  from NewClamped_idempotent_without_wraparound [of ?fp] h r
  have "NewClamped ?fp1 = Inr ?fp1" by blast
  with h r show ?thesis by simp
qed

theorem NewClamped_twice_counterexample:
  "Times \<lparr>Codes = [1], Times = [4294967295], Meta = zeroMetadata, clamped = False\<rparr> \<noteq> []
   \<and> NewClamped \<lparr>Codes = [1], Times = [4294967295], Meta = zeroMetadata, clamped = False\<rparr>
      = Inr \<lparr>Codes = [], Times = [], Meta = zeroMetadata, clamped = True\<rparr>
   \<and> NewClamped \<lparr>Codes = [], Times = [], Meta = zeroMetadata, clamped = True\<rparr>
      = Inl (Panicked IndexOutOfRange)"
  by (simp add: NewClamped_eval)

subsection \<open>Empty fingerprints\<close>

lemma Match_unclamped_empty:
  "Times fp = [] \<Longrightarrow> \<not> clamped fp \<Longrightarrow> Match sz query fp = Inl (Panicked IndexOutOfRange)"
  by (simp add: Match_def NewClamped_empty)

lemma decode_short: "length s < 5 \<Longrightarrow> decode s = Inr ([], [])"
  by (simp add: decode_def timesLoop.simps codesLoop.simps)

text \<open>
  C10, as the code has it. \<open>NewClamped\<close> reads \<open>fp.Times[0]\<close> first: on a fingerprint
  with empty \<open>Times\<close> it panics with an index out of range, and so does \<open>Match\<close> on
  such a fingerprint that is not yet clamped. Such a fingerprint is what
  \<open>NewFingerprint\<close> returns for a payload that inflates to fewer than 5 characters:
  \<open>decode\<close> then succeeds with zero pairs.
\<close>

theorem NewClamped_panics_on_empty_Times:
  "(Times fp = [] \<longrightarrow>
      NewClamped fp = Inl (Panicked IndexOutOfRange)
    \<and> (\<not> clamped fp \<longrightarrow> Match sz query fp = Inl (Panicked IndexOutOfRange)))
   \<and> (length s < 5 \<longrightarrow>
        decode s = Inr ([], [])
      \<and> (inflate (Code codegenFp) = Inr s \<longrightarrow>
           (\<exists>fp'. NewFingerprint inflate codegenFp = Inr fp' \<and> Times fp' = [] \<and> \<not> clamped fp'
                \<and> Match sz query fp' = Inl (Panicked IndexOutOfRange))))"
proof (intro conjI impI)
  assume "Times fp = []"
  then show "NewClamped fp = Inl (Panicked IndexOutOfRange)" by (rule NewClamped_empty)
next
  assume "Times fp = []" and "\<not> clamped fp"
  then show "Match sz query fp = Inl (Panicked IndexOutOfRange)" by (rule Match_unclamped_empty)
next
  assume "length s < 5"
  then show "decode s = Inr ([], [])" by (rule decode_short)
next
  assume short: "length s < 5" and inf: "inflate (Code codegenFp) = Inr s"
  let ?fp = "\<lparr>Codes = [], Times = [], Meta = cgMeta codegenFp, clamped = False\<rparr>"
  have "NewFingerprint inflate codegenFp = Inr ?fp"
    by (simp add: NewFingerprint_def inf decode_short [OF short])
  moreover have "Match sz query ?fp = Inl (Panicked IndexOutOfRange)"
    by (simp add: Match_unclamped_empty)
  ultimately show "\<exists>fp'. NewFingerprint inflate codegenFp = Inr fp' \<and> Times fp' = [] \<and> \<not> clamped fp'
                \<and> Match sz query fp' = Inl (Panicked IndexOutOfRange)"
    by simp
qed

theorem NewClamped_panics_on_empty_Times_witness:
  "Times \<lparr>Codes = [], Times = [], Meta = zeroMetadata, clamped = False\<rparr> = []
   \<and> NewClamped \<lparr>Codes = [], Times = [], Meta = zeroMetadata, clamped = False\<rparr>
       = Inl (Panicked IndexOutOfRange)
   \<and> Match Int64 (\<lambda>fp off lim score. Inr [])
        \<lparr>Codes = [], Times = [], Meta = zeroMetadata, clamped = False\<rparr>
       = Inl (Panicked IndexOutOfRange)
   \<and> length ''0000'' < 5
   \<and> decode ''0000'' = Inr ([], [])"
  using NewClamped_panics_on_empty_Times
    [of "\<lparr>Codes = [], Times = [], Meta = zeroMetadata, clamped = False\<rparr>" Int64
        "\<lambda>fp off lim score. Inr []" "''0000''"]
  by simp

theorem decode_five_to_nine_digits_counterexample:
  "length ''1234567'' < 10
   \<and> list_all isHexDigit ''1234567''
   \<and> decode ''1234567'' = Inl (Panicked IndexOutOfRange)"
  by (simp add: decode_eval isHexDigit_def)

subsection \<open>Facts about the scorer\<close>

lemma getCodeTimeMap_limit_0: "getCodeTimeMap matchFp 0 slop = Inr Map.empty"
  by (simp add: getCodeTimeMap_def codeMapLoop.simps)

lemma timeDiffsOf_no_codes: "Codes fp = [] \<Longrightarrow> timeDiffsOf sz fp matchFp slop = Inr []"
  by (simp add: timeDiffsOf_def getCodeTimeMap_limit_0)

text \<open>
  C2, as the code has it. With no codes in the query the histogram is empty, the score
  is 0 and the length is 0; the division \<open>float32(0) / float32(0)\<close> is not guarded and
  yields NaN, for every candidate, every \<open>slop\<close> and both sizes of \<open>int\<close>. NaN is not 0,
  and it is not \<open>>=\<close> any threshold.
\<close>

theorem calculateConfidence_no_codes_is_NaN:
  assumes "Codes fp = []"
  shows "calculateConfidence sz fp matchFp slop = Inr NaN \<and> \<not> fge NaN threshold"
proof -
  have "timeDiffsOf sz fp matchFp slop = Inr []"
    using assms by (rule timeDiffsOf_no_codes)
  then show ?thesis
    using assms by (simp add: calculateConfidence_def timeDiffVals_def scoreOf_def float32OfInt_def)
qed

theorem calculateConfidence_no_codes_is_NaN_witness:
  "Codes \<lparr>Codes = [], Times = [], Meta = zeroMetadata, clamped = True\<rparr> = []
   \<and> calculateConfidence Int32 \<lparr>Codes = [], Times = [], Meta = zeroMetadata, clamped = True\<rparr>
        \<lparr>Codes = [7, 8], Times = [1, 2], Meta = zeroMetadata, clamped = False\<rparr> 0 = Inr NaN
   \<and> \<not> fge NaN minMatchConfidenceLowQuality"
  using calculateConfidence_no_codes_is_NaN
    [of "\<lparr>Codes = [], Times = [], Meta = zeroMetadata, clamped = True\<rparr>" Int32
        "\<lparr>Codes = [7, 8], Times = [1, 2], Meta = zeroMetadata, clamped = False\<rparr>" 0
        minMatchConfidenceLowQuality]
  by simp

lemmas score_eval = timeDiffsOf_def getCodeTimeMap_def codeMapLoop.simps index_def roundDown_def
  distOf_def intOfUint32_def negInt_def increment_def calculateConfidence_def timeDiffVals_def
  scoreOf_def float32OfInt_def

theorem calculateConfidence_no_codes_counterexample:
  "calculateConfidence Int64 \<lparr>Codes = [], Times = [], Meta = zeroMetadata, clamped = True\<rparr>
      \<lparr>Codes = [1], Times = [2], Meta = zeroMetadata, clamped = False\<rparr> 2 = Inr NaN
   \<and> NaN \<noteq> Fin 0"
  by (simp add: score_eval)

text \<open>
  C1. The bucket is keyed by \<open>int(fpTime - matchTime)\<close>, made non-negative only if the
  conversion gave a negative number. The subtraction is on \<open>uint32\<close>, so with a 64-bit
  \<open>int\<close> the key is never negative: for a query time 0 and a candidate time 2 (both
  already multiples of \<open>slop = 2\<close>) the bucket incremented is 4294967294, not the
  absolute difference 2.
\<close>

theorem timeDiffs_key_wraps_when_candidate_later:
  "roundDown 0 2 = Inr 0 \<and> roundDown 2 2 = Inr 2
   \<and> timeDiffsOf Int64 \<lparr>Codes = [1], Times = [0], Meta = zeroMetadata, clamped = True\<rparr>
        \<lparr>Codes = [1], Times = [2], Meta = zeroMetadata, clamped = False\<rparr> 2
      = Inr [(4294967294, 1)]
   \<and> distOf Int64 0 2 = 4294967294
   \<and> distOf Int64 0 2 \<noteq> \<bar>uint (0 :: uint32) - uint (2 :: uint32)\<bar>"
  by (simp add: score_eval)

lemma distOf_Int64:
  "distOf Int64 a b = (if b \<le> a then uint a - uint b else 2 ^ 32 - (uint b - uint a))"
proof -
  have nonneg: "\<not> uint (a - b) < 0" by simp
  have "uint (a - b) = (if b \<le> a then uint a - uint b else 2 ^ 32 - (uint b - uint a))"
    by (simp add: uint_sub_if' word_le_def)
  then show ?thesis unfolding distOf_def intOfUint32_def Let_def using nonneg by simp
qed

subsection \<open>Facts about best-match selection\<close>

text \<open>
  C5. On a single result \<open>determineBestMatch\<close> sets \<open>Best\<close> on it. On two or more
  results with finite confidences \<open>a\<close> (top) and \<open>b\<close> (second) it sets \<open>Best\<close> on the
  top result exactly when \<open>a - b \<ge> a * 0.25\<close>, and otherwise returns the results
  unchanged. Nothing but the \<open>Best\<close> flag of the top result is ever changed.
\<close>

theorem determineBestMatch_margin_rule:
  "determineBestMatch [m] = Inr [m\<lparr>Best := True\<rparr>]
   \<and> (Confidence m0 = Fin a \<and> Confidence m1 = Fin b \<longrightarrow>
        determineBestMatch (m0 # m1 # ms)
          = Inr ((if a - b \<ge> a * 0.25 then m0\<lparr>Best := True\<rparr> else m0) # m1 # ms))"
  by (simp add: determineBestMatch_def index_def bestMatchDiff_def)

theorem determineBestMatch_margin_rule_witness:
  "determineBestMatch
     [newMatchResult \<lparr>dbFp = \<lparr>Codes = [], Times = [], Meta = zeroMetadata, clamped = False\<rparr>, ingestedAt = []\<rparr> (Fin 90),
      newMatchResult \<lparr>dbFp = \<lparr>Codes = [], Times = [], Meta = zeroMetadata, clamped = False\<rparr>, ingestedAt = []\<rparr> (Fin 60)]
   = Inr
     [(newMatchResult \<lparr>dbFp = \<lparr>Codes = [], Times = [], Meta = zeroMetadata, clamped = False\<rparr>, ingestedAt = []\<rparr> (Fin 90))
        \<lparr>Best := True\<rparr>,
      newMatchResult \<lparr>dbFp = \<lparr>Codes = [], Times = [], Meta = zeroMetadata, clamped = False\<rparr>, ingestedAt = []\<rparr> (Fin 60)]
   \<and> determineBestMatch
     [newMatchResult \<lparr>dbFp = \<lparr>Codes = [], Times = [], Meta = zeroMetadata, clamped = False\<rparr>, ingestedAt = []\<rparr> (Fin 90),
      newMatchResult \<lparr>dbFp = \<lparr>Codes = [], Times = [], Meta = zeroMetadata, clamped = False\<rparr>, ingestedAt = []\<rparr> (Fin 85)]
   = Inr
     [newMatchResult \<lparr>dbFp = \<lparr>Codes = [], Times = [], Meta = zeroMetadata, clamped = False\<rparr>, ingestedAt = []\<rparr> (Fin 90),
      newMatchResult \<lparr>dbFp = \<lparr>Codes = [], Times = [], Meta = zeroMetadata, clamped = False\<rparr>, ingestedAt = []\<rparr> (Fin 85)]
   \<and> determineBestMatch
     [newMatchResult \<lparr>dbFp = \<lparr>Codes = [], Times = [], Meta = zeroMetadata, clamped = False\<rparr>, ingestedAt = []\<rparr> (Fin 36)]
   = Inr
     [(newMatchResult \<lparr>dbFp = \<lparr>Codes = [], Times = [], Meta = zeroMetadata, clamped = False\<rparr>, ingestedAt = []\<rparr> (Fin 36))
        \<lparr>Best := True\<rparr>]"
proof -
  let ?r = "\<lparr>dbFp = \<lparr>Codes = [], Times = [], Meta = zeroMetadata, clamped = False\<rparr>, ingestedAt = []\<rparr>"
  have c: "Confidence (newMatchResult ?r (Fin x)) = Fin x" for x
    by (simp add: newMatchResult_def)
  from determineBestMatch_margin_rule [of "newMatchResult ?r (Fin 36)" "newMatchResult ?r (Fin 90)" 90 "newMatchResult ?r (Fin 60)" 60 "[]"] c
  have a: "determineBestMatch [newMatchResult ?r (Fin 90), newMatchResult ?r (Fin 60)]
     = Inr [(newMatchResult ?r (Fin 90))\<lparr>Best := True\<rparr>, newMatchResult ?r (Fin 60)]"
    by simp
  from determineBestMatch_margin_rule [of "newMatchResult ?r (Fin 36)" "newMatchResult ?r (Fin 90)" 90 "newMatchResult ?r (Fin 85)" 85 "[]"] c
  have b: "determineBestMatch [newMatchResult ?r (Fin 90), newMatchResult ?r (Fin 85)]
     = Inr [newMatchResult ?r (Fin 90), newMatchResult ?r (Fin 85)]"
    by simp
  have s: "determineBestMatch [newMatchResult ?r (Fin 36)]
     = Inr [(newMatchResult ?r (Fin 36))\<lparr>Best := True\<rparr>]"
    by (rule determineBestMatch_margin_rule [THEN conjunct1])
  from a b s show ?thesis by simp
qed

subsection \<open>Facts about MatchAll\<close>

lemma joinGroups_all_Inr: "joinGroups (map Inr xs) = Some xs"
  by (induction xs) auto

lemma joinGroups_Some_length: "joinGroups gs = Some rs \<Longrightarrow> length rs = length gs"
  by (induction gs arbitrary: rs) (auto split: sum.splits option.splits)

lemma joinGroups_panic: "Inl p \<in> set gs \<Longrightarrow> joinGroups gs = None"
  by (induction gs) (auto split: sum.splits option.splits)

lemma MatchAll_when_returns:
  "MatchAll sz inflate query codegenList = Some rs \<Longrightarrow>
     length rs = length codegenList
     \<and> (\<forall>i < length codegenList. matchGroup sz inflate query (codegenList ! i) = Inr (rs ! i))"
proof (induction codegenList arbitrary: rs)
  case Nil
  then show ?case by (simp add: MatchAll_def)
next
  case (Cons c cs)
  from Cons.prems obtain r rs' where r: "matchGroup sz inflate query c = Inr r"
    and rs': "MatchAll sz inflate query cs = Some rs'" and rs: "rs = r # rs'"
    by (auto simp: MatchAll_def split: sum.splits option.splits)
  from Cons.IH [OF rs'] r rs show ?case
    by (auto simp: nth_Cons split: nat.splits)
qed

text \<open>
  C4. A returned error is captured in the element's own slot, but a panic is not: the
  goroutine of an element whose payload inflates to five hexadecimal digits panics
  inside \<open>decode\<close>, and so does the one of an element whose payload inflates to the empty
  string, inside \<open>NewClamped\<close>. In a batch of three whose second element is such a
  payload, \<open>MatchAll\<close> returns nothing, though the first and third elements alone give an
  empty list of matches each.
\<close>

theorem MatchAll_batch_aborted_by_panic:
  "matchGroup Int64
      (\<lambda>c. if c = ''eJwzMDAwMDQwTDMxAIFEEJEEACvYBGA='' then Inr ''0000101f400000a0000b''
            else if c = ''eJwzMAACAALVAPE='' then Inr ''00000''
            else if c = ''eJwDAAAAAAE='' then Inr []
            else Inl (ErrOther ''corrupt''))
      (\<lambda>fp off lim score. Inr [])
      \<lparr>cgMeta = zeroMetadata, Code = ''eJwzMDAwMDQwTDMxAIFEEJEEACvYBGA=''\<rparr> = Inr []
   \<and> MatchAll Int64
      (\<lambda>c. if c = ''eJwzMDAwMDQwTDMxAIFEEJEEACvYBGA='' then Inr ''0000101f400000a0000b''
            else if c = ''eJwzMAACAALVAPE='' then Inr ''00000''
            else if c = ''eJwDAAAAAAE='' then Inr []
            else Inl (ErrOther ''corrupt''))
      (\<lambda>fp off lim score. Inr [])
      [\<lparr>cgMeta = zeroMetadata, Code = ''eJwzMDAwMDQwTDMxAIFEEJEEACvYBGA=''\<rparr>,
       \<lparr>cgMeta = zeroMetadata, Code = ''eJwzMAACAALVAPE=''\<rparr>,
       \<lparr>cgMeta = zeroMetadata, Code = ''eJwzMDAwMDQwTDMxAIFEEJEEACvYBGA=''\<rparr>] = None
   \<and> MatchAll Int64
      (\<lambda>c. if c = ''eJwzMDAwMDQwTDMxAIFEEJEEACvYBGA='' then Inr ''0000101f400000a0000b''
            else if c = ''eJwzMAACAALVAPE='' then Inr ''00000''
            else if c = ''eJwDAAAAAAE='' then Inr []
            else Inl (ErrOther ''corrupt''))
      (\<lambda>fp off lim score. Inr [])
      [\<lparr>cgMeta = zeroMetadata, Code = ''eJwzMDAwMDQwTDMxAIFEEJEEACvYBGA=''\<rparr>,
       \<lparr>cgMeta = zeroMetadata, Code = ''eJwDAAAAAAE=''\<rparr>,
       \<lparr>cgMeta = zeroMetadata, Code = ''eJwzMDAwMDQwTDMxAIFEEJEEACvYBGA=''\<rparr>] = None"
proof -
  let ?inflate = "\<lambda>c. if c = ''eJwzMDAwMDQwTDMxAIFEEJEEACvYBGA='' then Inr ''0000101f400000a0000b''
            else if c = ''eJwzMAACAALVAPE='' then Inr ''00000''
            else if c = ''eJwDAAAAAAE='' then Inr []
            else Inl (ErrOther ''corrupt'')"
  let ?query = "\<lambda>fp off lim score. Inr []"
  let ?good = "\<lparr>cgMeta = zeroMetadata, Code = ''eJwzMDAwMDQwTDMxAIFEEJEEACvYBGA=''\<rparr>"
  let ?odd = "\<lparr>cgMeta = zeroMetadata, Code = ''eJwzMAACAALVAPE=''\<rparr>"
  let ?empty = "\<lparr>cgMeta = zeroMetadata, Code = ''eJwDAAAAAAE=''\<rparr>"
  have r2: "replicate 2 (0 :: uint32) = [0, 0]" by (simp add: numeral_2_eq_2)
  have d: "decode ''0000101f400000a0000b'' = Inr ([10, 11], [1, 8000])"
    by (simp add: decode_eval Let_def r2)
  have c: "NewClamped \<lparr>Codes = [10, 11], Times = [1, 8000], Meta = zeroMetadata, clamped = False\<rparr>
      = Inr \<lparr>Codes = [10], Times = [1], Meta = zeroMetadata, clamped = True\<rparr>"
    by (simp add: NewClamped_eval)
  have good: "matchGroup Int64 ?inflate ?query ?good = Inr []"
    by (simp add: matchGroup_def NewFingerprint_def d Match_def c)
  have odd: "matchGroup Int64 ?inflate ?query ?odd = Inl IndexOutOfRange"
    by (simp add: matchGroup_def NewFingerprint_def decode_eval)
  have empty: "matchGroup Int64 ?inflate ?query ?empty = Inl IndexOutOfRange"
    by (simp add: matchGroup_def NewFingerprint_def decode_short Match_unclamped_empty)
  have "MatchAll Int64 ?inflate ?query [?good, ?odd, ?good] = None"
    unfolding MatchAll_def list.map good odd by simp
  moreover have "MatchAll Int64 ?inflate ?query [?good, ?empty, ?good] = None"
    unfolding MatchAll_def list.map good empty by simp
  ultimately show ?thesis using good by simp
qed

subsection \<open>What decode does not check\<close>

lemma substr_take: "hi \<le> n \<Longrightarrow> substr (take n s) lo hi = substr s lo hi"
  by (auto simp: substr_def drop_take min_def)

lemma parseGroup_take: "i * 5 + 5 \<le> n \<Longrightarrow> parseGroup (take n s) i = parseGroup s i"
  by (simp add: parseGroup_def substr_take)

lemma timesLoop_take:
  "len * 5 \<le> n \<Longrightarrow> timesLoop (take n s) len i tms = timesLoop s len i tms"
proof (induction s len i tms rule: timesLoop.induct)
  case (1 fp len i tms)
  show ?case
  proof (cases "i < len")
    case False
    then show ?thesis by (simp add: timesLoop.simps)
  next
    case True
    then have "i * 5 + 5 \<le> n" using "1.prems" by linarith
    then have pg: "parseGroup (take n fp) i = parseGroup fp i" by (rule parseGroup_take)
    have L: "timesLoop (take n fp) len i tms =
        (case parseGroup fp i of
           Inl f \<Rightarrow> Inl f
         | Inr v \<Rightarrow>
             (case store tms i v of
                Inl f \<Rightarrow> Inl f
              | Inr tms' \<Rightarrow> timesLoop (take n fp) len (Suc i) tms'))"
      using True by (subst timesLoop.simps) (simp add: pg)
    have R: "timesLoop fp len i tms =
        (case parseGroup fp i of
           Inl f \<Rightarrow> Inl f
         | Inr v \<Rightarrow>
             (case store tms i v of
                Inl f \<Rightarrow> Inl f
              | Inr tms' \<Rightarrow> timesLoop fp len (Suc i) tms'))"
      using True by (subst timesLoop.simps) simp
    show ?thesis
      unfolding L R using True "1.IH" "1.prems" by (auto split: sum.splits)
  qed
qed

lemma codesLoop_take:
  "tupleCount * 5 \<le> n \<Longrightarrow>
     codesLoop (take n s) len tupleCount i codes = codesLoop s len tupleCount i codes"
proof (induction s len tupleCount i codes rule: codesLoop.induct)
  case (1 fp len tupleCount i codes)
  show ?case
  proof (cases "i < tupleCount")
    case False
    then show ?thesis by (simp add: codesLoop.simps)
  next
    case True
    then have "i * 5 + 5 \<le> n" using "1.prems" by linarith
    then have pg: "parseGroup (take n fp) i = parseGroup fp i" by (rule parseGroup_take)
    have L: "codesLoop (take n fp) len tupleCount i codes =
        (case parseGroup fp i of
           Inl f \<Rightarrow> Inl f
         | Inr v \<Rightarrow>
             (case store codes (i - len) v of
                Inl f \<Rightarrow> Inl f
              | Inr codes' \<Rightarrow> codesLoop (take n fp) len tupleCount (Suc i) codes'))"
      using True by (subst codesLoop.simps) (simp add: pg)
    have R: "codesLoop fp len tupleCount i codes =
        (case parseGroup fp i of
           Inl f \<Rightarrow> Inl f
         | Inr v \<Rightarrow>
             (case store codes (i - len) v of
                Inl f \<Rightarrow> Inl f
              | Inr codes' \<Rightarrow> codesLoop fp len tupleCount (Suc i) codes'))"
      using True by (subst codesLoop.simps) simp
    show ?thesis
      unfolding L R using True "1.IH" "1.prems" by (auto split: sum.splits)
  qed
qed

lemma decode_ignores_tail: "decode (take (5 * (length s div 5)) s) = decode s"
proof -
  define tc where "tc = length s div 5"
  have le: "5 * tc \<le> length s" unfolding tc_def by simp
  then have l: "length (take (5 * tc) s) div 5 = tc" by (simp add: min_def)
  have t5: "tc * 5 \<le> 5 * tc" and h5: "tc div 2 * 5 \<le> 5 * tc" by simp_all
  show ?thesis
    unfolding tc_def [symmetric]
    unfolding decode_def l Let_def timesLoop_take [OF h5] codesLoop_take [OF t5]
    unfolding tc_def ..
qed

text \<open>
  C3, as the code has it. \<open>decode\<close> returns a syntax error, and no codes or times,
  whenever one of the \<open>len(fp) / 5\<close> complete five-character groups is not
  hexadecimal. It never looks at the length modulo 5: the characters after the last
  complete group are not read, and the outcome is that of the string cut to a multiple
  of 5.
\<close>

theorem decode_rejects_bad_group_ignores_tail:
  "((\<exists>k. k < length s div 5 \<and> \<not> groupOK s k) \<longrightarrow> decode s = Inl (Failed ErrSyntax))
   \<and> decode (take (5 * (length s div 5)) s) = decode s"
  using decode_cases [of s] decode_ignores_tail [of s] by auto

theorem decode_rejects_bad_group_ignores_tail_witness:
  "1 < length ''000010000g00003'' div 5
   \<and> \<not> groupOK ''000010000g00003'' 1
   \<and> decode ''000010000g00003'' = Inl (Failed ErrSyntax)
   \<and> decode ''0000100002'' = decode ''0000100002zz''"
proof -
  have k: "1 < length ''000010000g00003'' div 5 \<and> \<not> groupOK ''000010000g00003'' 1"
    by (simp add: groupOK_def hexGroup_def isHexDigit_def)
  then have "\<exists>k. k < length ''000010000g00003'' div 5 \<and> \<not> groupOK ''000010000g00003'' k"
    by blast
  with decode_rejects_bad_group_ignores_tail [of "''000010000g00003''"]
  have a: "decode ''000010000g00003'' = Inl (Failed ErrSyntax)" by blast
  from decode_rejects_bad_group_ignores_tail [of "''0000100002zz''"]
  have b: "decode ''0000100002'' = decode ''0000100002zz''" by simp
  from k a b show ?thesis by simp
qed

theorem decode_length_not_multiple_of_5_counterexample:
  "length ''00001000020'' mod 5 \<noteq> 0
   \<and> decode ''00001000020'' = Inr ([2], [1])"
  by (simp add: decode_eval)

end
